theory Spec2Isabelle
  imports Main
begin

section \<open>Data model (src/types/index.ts)\<close>

text \<open>
  A \<open>Blob\<close> is an opaque byte sequence together with its MIME type. A \<open>File\<close> built
  from a blob (\<open>new File([audioBlob], 'recording.webm', {type})\<close>) is the same bytes
  with the given type.
\<close>

record blob =
  blob_bytes :: string
  blob_type :: string

record customer =
  customer_id :: string
  name :: string
  email :: string
  phone :: string
  createdAt :: string

datatype status = pending | uploaded | failed

record chatSession =
  session_id :: string
  customerId :: string
  customerName :: string
  date :: string
  session_audioBlob :: "blob option"
  session_audioUrl :: "string option"
  session_transcript :: string
  duration :: nat
  session_status :: status

record pendingUpload =
  sessionId :: string
  audioBlob :: blob
  retryCount :: nat
  lastAttempt :: string

section \<open>The outside world\<close>

text \<open>
  Every call that leaves the program (remote storage, remote tables, the transcriber,
  the timer) and every invocation of a caller-supplied callback is recorded, in order,
  in the \<open>trace\<close> of the world. The answers of the outside world are functions of the
  history so far (the trace up to and including the call), collected in an \<open>env\<close>:
  nothing is assumed about them. An awaited remote call can report an error in its
  result or reject (throw); the progress callback handed to \<open>uploadAudio\<close> can throw.
\<close>

datatype dataurl = DataURL blob

datatype event =
    StorageList
  | StorageUpload string blob
  | GetPublicUrl string
  | CreateSignedUrl string nat
  | GeminiFetch blob
  | Sleep nat
  | Progress int
  | RetryStatus string string
  | DbDeleteSessionsByCustomer string
  | DbDeleteCustomer string

text \<open>
  A value caught by \<open>catch (error)\<close>: either it has a string \<open>message\<close>, or it is
  rendered by \<open>String(error)\<close>.
\<close>

datatype thrown = ErrorWithMessage string | OtherThrown string

datatype list_response = ListOk | ListError string | ListThrows

text \<open>
  The answer of \<open>createSignedUrl\<close>: a signed URL (no \<open>signedError\<close>, and
  \<open>signedData.signedUrl\<close> is read), a reported \<open>signedError\<close>, or a throw: the awaited
  call rejects, or it reports no error and no data, so that reading \<open>signedData.signedUrl\<close>
  throws.
\<close>

datatype signed_response = SignedUrl string | SignedError | SignedThrows thrown

text \<open>
  The transcriber's HTTP answer: the \<open>fetch\<close> rejects, the response is not \<open>ok\<close>
  (with its body text), the body is not usable (\<open>response.json()\<close> or the extraction
  throws), or the body yields the list \<open>result?.candidates?.[0]?.content?.parts || []\<close>,
  each part with its \<open>text\<close> when that is a string.
\<close>

datatype gemini_response =
    FetchThrows
  | NotOk string
  | OkInvalid
  | OkParts "string option list"

record env =
  VITE_GEMINI_API_KEY :: "string option"
  VITE_SUPABASE_STORAGE_BUCKET :: "string option"
  storage_list :: "event list \<Rightarrow> list_response"
  storage_upload :: "event list \<Rightarrow> thrown option"
  public_url :: "event list \<Rightarrow> string"
  signed_url :: "event list \<Rightarrow> signed_response"
  on_progress :: "event list \<Rightarrow> thrown option"
  gemini_fetch :: "event list \<Rightarrow> gemini_response"
  now :: "event list \<Rightarrow> string"
  db_deleteSessionsByCustomer :: "event list \<Rightarrow> thrown option"
  db_deleteCustomer :: "event list \<Rightarrow> thrown option"

text \<open>
  \<open>localStorage\<close>: one optional value per key (\<open>None\<close> when the key was never
  written). The values are kept as the program hands them to \<open>JSON.stringify\<close>; the
  program never reads the \<open>audioBlob\<close> field of a stored entry back (a retry takes the
  blob from the audio-blob cache). \<open>localStorage\<close> is the state the model carries:
  reading and writing it succeed, for every function of src/utils/storage.ts alike.
\<close>

record world =
  rm_customers :: "customer list option"
  rm_chat_sessions :: "chatSession list option"
  rm_pending_uploads :: "pendingUpload list option"
  rm_audio_blobs :: "(string \<rightharpoonup> dataurl) option"
  trace :: "event list"

definition emit :: "event \<Rightarrow> world \<Rightarrow> world" where
  "emit ev w = w\<lparr>trace := trace w @ [ev]\<rparr>"

text \<open>The events a computation added to the trace, from world \<open>w\<close> to world \<open>w'\<close>.\<close>

definition emitted :: "world \<Rightarrow> world \<Rightarrow> event list" where
  "emitted w w' = drop (length (trace w)) (trace w')"

text \<open>The world \<open>w\<close> after the events \<open>evs\<close> have been recorded.\<close>

definition emitAll :: "world \<Rightarrow> event list \<Rightarrow> world" where
  "emitAll w evs = w\<lparr>trace := trace w @ evs\<rparr>"

section \<open>Strings as JavaScript uses them\<close>

text \<open>
  Strings are byte strings. \<open>toLowerCase\<close> folds the ASCII letters, \<open>includes\<close> is the
  substring test, \<open>trim\<close> strips the ASCII white space at both ends, and \<open>showNat\<close> is the
  decimal rendering of a number in a template literal.
\<close>

definition toLowerChar :: "char \<Rightarrow> char" where
  "toLowerChar c =
     (let n = (of_char c :: nat) in if 65 \<le> n \<and> n \<le> 90 then char_of (n + 32) else c)"

definition toLowerCase :: "string \<Rightarrow> string" where
  "toLowerCase s = map toLowerChar s"

fun includesJS :: "string \<Rightarrow> string \<Rightarrow> bool" where
  "includesJS [] t = (t = [])"
| "includesJS (c # s) t = (take (length t) (c # s) = t \<or> includesJS s t)"

definition isWhiteSpace :: "char \<Rightarrow> bool" where
  "isWhiteSpace c = ((of_char c :: nat) \<in> {9, 10, 11, 12, 13, 32})"

definition trim :: "string \<Rightarrow> string" where
  "trim s = rev (dropWhile isWhiteSpace (rev (dropWhile isWhiteSpace s)))"

fun join :: "string \<Rightarrow> string list \<Rightarrow> string" where
  "join sep [] = []"
| "join sep [x] = x"
| "join sep (x # y # ys) = x @ sep @ join sep (y # ys)"

definition digit :: "nat \<Rightarrow> char" where
  "digit d = char_of (48 + d)"

fun showNat :: "nat \<Rightarrow> string" where
  "showNat n = (if n < 10 then [digit n] else showNat (n div 10) @ [digit (n mod 10)])"

declare showNat.simps [simp del]

section \<open>Durable local cache (src/utils/storage.ts)\<close>

definition getCustomers :: "world \<Rightarrow> customer list" where
  "getCustomers w = (case rm_customers w of None \<Rightarrow> [] | Some cs \<Rightarrow> cs)"

definition saveCustomers :: "customer list \<Rightarrow> world \<Rightarrow> world" where
  "saveCustomers cs w = w\<lparr>rm_customers := Some cs\<rparr>"

definition getSessions :: "world \<Rightarrow> chatSession list" where
  "getSessions w = (case rm_chat_sessions w of None \<Rightarrow> [] | Some ss \<Rightarrow> ss)"

definition saveSessions :: "chatSession list \<Rightarrow> world \<Rightarrow> world" where
  "saveSessions ss w = w\<lparr>rm_chat_sessions := Some ss\<rparr>"

definition getPendingUploads :: "world \<Rightarrow> pendingUpload list" where
  "getPendingUploads w = (case rm_pending_uploads w of None \<Rightarrow> [] | Some us \<Rightarrow> us)"

definition savePendingUploads :: "pendingUpload list \<Rightarrow> world \<Rightarrow> world" where
  "savePendingUploads us w = w\<lparr>rm_pending_uploads := Some us\<rparr>"

definition getAudioBlobs :: "world \<Rightarrow> (string \<rightharpoonup> dataurl)" where
  "getAudioBlobs w = (case rm_audio_blobs w of None \<Rightarrow> Map.empty | Some m \<Rightarrow> m)"

text \<open>
  \<open>saveAudioBlob\<close> reads the blob as a data URL and, when the reader has finished,
  stores it under the session id. The model takes the read as completed and successful:
  \<open>readAsDataURL\<close> and the later \<open>fetch\<close> of the data URL are inverse to each other.
\<close>

definition readAsDataURL :: "blob \<Rightarrow> dataurl" where
  "readAsDataURL b = DataURL b"

fun fetchDataURL :: "dataurl \<Rightarrow> blob" where
  "fetchDataURL (DataURL b) = b"

definition saveAudioBlob :: "string \<Rightarrow> blob \<Rightarrow> world \<Rightarrow> world" where
  "saveAudioBlob sid b w =
     (let base64 = readAsDataURL b;
          blobs = getAudioBlobs w
      in w\<lparr>rm_audio_blobs := Some (blobs(sid \<mapsto> base64))\<rparr>)"

definition getAudioBlob :: "string \<Rightarrow> world \<Rightarrow> blob option" where
  "getAudioBlob sid w =
     (case getAudioBlobs w sid of None \<Rightarrow> None | Some base64 \<Rightarrow> Some (fetchDataURL base64))"

definition deleteAudioBlob :: "string \<Rightarrow> world \<Rightarrow> world" where
  "deleteAudioBlob sid w =
     (let blobs = getAudioBlobs w in w\<lparr>rm_audio_blobs := Some (blobs(sid := None))\<rparr>)"

definition addPendingUpload :: "env \<Rightarrow> string \<Rightarrow> blob \<Rightarrow> world \<Rightarrow> world" where
  "addPendingUpload e sid b w =
     (let uploads = getPendingUploads w;
          uploads' = uploads @
            [\<lparr>sessionId = sid, audioBlob = b, retryCount = 0, lastAttempt = now e (trace w)\<rparr>];
          w1 = savePendingUploads uploads' w
      in saveAudioBlob sid b w1)"

definition removePendingUpload :: "string \<Rightarrow> world \<Rightarrow> world" where
  "removePendingUpload sid w =
     (let uploads = getPendingUploads w;
          filtered = filter (\<lambda>u. sessionId u \<noteq> sid) uploads
      in savePendingUploads filtered w)"

section \<open>Supabase client configuration (src/utils/supabaseClient.ts)\<close>

definition STORAGE_BUCKET :: "env \<Rightarrow> string" where
  "STORAGE_BUCKET e =
     (case VITE_SUPABASE_STORAGE_BUCKET e of
        None \<Rightarrow> ''recordings''
      | Some s \<Rightarrow> if s = [] then ''recordings'' else s)"

section \<open>Upload pipeline (src/utils/uploadService.ts)\<close>

definition maxRetries :: nat where
  "maxRetries = 3"

definition retryDelay :: nat where
  "retryDelay = 2000"

text \<open>
  \<open>onProgress?.(p)\<close>: whether a callback was given is a flag; each invocation is recorded
  in the trace, and the environment says whether the invocation throws.
\<close>

definition progress :: "env \<Rightarrow> bool \<Rightarrow> int \<Rightarrow> world \<Rightarrow> thrown option \<times> world" where
  "progress e onProgress p w =
     (if onProgress
      then (let w1 = emit (Progress p) w in (on_progress e (trace w1), w1))
      else (None, w))"

definition checkServerConnection :: "env \<Rightarrow> world \<Rightarrow> bool \<times> world" where
  "checkServerConnection e w =
     (let w1 = emit StorageList w
      in case storage_list e (trace w1) of
           ListOk \<Rightarrow> (True, w1)
         | ListError msg \<Rightarrow> (False, w1)
         | ListThrows \<Rightarrow> (False, w1))"

definition generateTranscriptWithGemini :: "env \<Rightarrow> blob \<Rightarrow> world \<Rightarrow> string \<times> world" where
  "generateTranscriptWithGemini e b w =
     (if VITE_GEMINI_API_KEY e = None \<or> VITE_GEMINI_API_KEY e = Some [] then ([], w)
      else
        (let w1 = emit (GeminiFetch b) w
         in case gemini_fetch e (trace w1) of
              FetchThrows \<Rightarrow> ([], w1)
            | NotOk errText \<Rightarrow> ([], w1)
            | OkInvalid \<Rightarrow> ([], w1)
            | OkParts parts \<Rightarrow>
                (trim (join '' '' (map (\<lambda>p. case p of Some t \<Rightarrow> t | None \<Rightarrow> []) parts)), w1)))"

record outcome =
  success :: bool
  transcript :: "string option"
  audioUrl :: "string option"
  error :: "string option"

definition errorMessageOf :: "thrown \<Rightarrow> string" where
  "errorMessageOf err = (case err of ErrorWithMessage m \<Rightarrow> m | OtherThrown s \<Rightarrow> s)"

definition isBucketNotFound :: "thrown \<Rightarrow> bool" where
  "isBucketNotFound err = includesJS (toLowerCase (errorMessageOf err)) ''bucket not found''"

text \<open>
  The double quote of the message is the byte 0x22; its arrow is U+2192, here as its
  three UTF-8 bytes.
\<close>

definition dquote :: string where
  "dquote = [CHR 0x22]"

definition arrow :: string where
  "arrow = [CHR 0xE2, CHR 0x86, CHR 0x92]"

definition bucketNotFoundMessage :: "env \<Rightarrow> string" where
  "bucketNotFoundMessage e =
     ''Supabase bucket '' @ dquote @ STORAGE_BUCKET e @ dquote @
     '' not found. Create this bucket in Supabase Storage (Dashboard '' @ arrow @
     '' Storage '' @ arrow @
     '' New bucket) and set its public access or adjust policies.''"

definition exhaustedMessage :: "string \<Rightarrow> string" where
  "exhaustedMessage errorMessage =
     ''Upload failed after '' @ showNat maxRetries @
     '' attempts. Recording saved locally. '' @ errorMessage"

definition filePathOf :: "string \<Rightarrow> string" where
  "filePathOf sid = ''recordings/'' @ sid @ ''/recording.webm''"

definition fileOf :: "blob \<Rightarrow> blob" where
  "fileOf b = b\<lparr>blob_type := (if blob_type b = [] then ''audio/webm'' else blob_type b)\<rparr>"

text \<open>
  The URL of the uploaded object: the public URL, or, when that is empty, a signed URL
  valid for one hour if its creation reports no error. \<open>Inl\<close> is a rejection of
  \<open>createSignedUrl\<close>, which the caller's \<open>try\<close> block catches.
\<close>

definition resolveUrl :: "env \<Rightarrow> string \<Rightarrow> world \<Rightarrow> (thrown + string) \<times> world" where
  "resolveUrl e filePath w =
     (let w1 = emit (GetPublicUrl filePath) w;
          publicUrl = public_url e (trace w1)
      in if publicUrl = [] then
           (let w2 = emit (CreateSignedUrl filePath (60 * 60)) w1
            in case signed_url e (trace w2) of
                 SignedThrows err \<Rightarrow> (Inl err, w2)
               | SignedError \<Rightarrow> (Inr publicUrl, w2)
               | SignedUrl signedUrl \<Rightarrow> (Inr signedUrl, w2))
         else (Inr publicUrl, w1))"

text \<open>
  The \<open>try\<close> block of \<open>attemptUpload\<close> (uploadService.ts:50-83). \<open>Inl err\<close> is the value
  thrown out of the block, by the progress callback, by the storage upload (a reported
  \<open>uploadError\<close> is thrown by the block itself) or by \<open>createSignedUrl\<close>; \<open>Inr\<close> is the
  value the block returns. \<open>generateTranscriptWithGemini\<close> catches what its own calls
  throw and has no throwing result; \<open>removePendingUpload\<close> works on \<open>localStorage\<close>,
  which does not fail in this model.
\<close>

definition attemptUpload_try ::
  "env \<Rightarrow> string \<Rightarrow> blob \<Rightarrow> bool \<Rightarrow> world \<Rightarrow> (thrown + outcome) \<times> world" where
  "attemptUpload_try e sid b onProgress w =
     (let filePath = filePathOf sid;
          file = fileOf b
      in case progress e onProgress 10 w of
           (Some err, w1) \<Rightarrow> (Inl err, w1)
         | (None, w1) \<Rightarrow>
             (let w2 = emit (StorageUpload filePath file) w1
              in case storage_upload e (trace w2) of
                   Some err \<Rightarrow> (Inl err, w2)
                 | None \<Rightarrow>
                     (case progress e onProgress 60 w2 of
                        (Some err, w3) \<Rightarrow> (Inl err, w3)
                      | (None, w3) \<Rightarrow>
                          (case resolveUrl e filePath w3 of
                             (Inl err, w4) \<Rightarrow> (Inl err, w4)
                           | (Inr publicUrl, w4) \<Rightarrow>
                               (let (text, w5) = generateTranscriptWithGemini e b w4
                                in case progress e onProgress 100 w5 of
                                     (Some err, w6) \<Rightarrow> (Inl err, w6)
                                   | (None, w6) \<Rightarrow>
                                       (let w7 = removePendingUpload sid w6
                                        in (Inr \<lparr>success = True, transcript = Some text,
                                                  audioUrl = Some publicUrl, error = None\<rparr>,
                                            w7)))))))"

text \<open>\<open>attemptUpload\<close>: the \<open>try\<close> block and the \<open>catch\<close> block (uploadService.ts:84-107).\<close>

function attemptUpload ::
  "env \<Rightarrow> string \<Rightarrow> blob \<Rightarrow> nat \<Rightarrow> bool \<Rightarrow> world \<Rightarrow> outcome \<times> world" where
  "attemptUpload e sid b rc onProgress w =
     (case attemptUpload_try e sid b onProgress w of
        (Inr result, w') \<Rightarrow> (result, w')
      | (Inl err, w') \<Rightarrow>
          (let errorMessage = errorMessageOf err
           in if includesJS (toLowerCase errorMessage) ''bucket not found'' then
                (\<lparr>success = False, transcript = None, audioUrl = None,
                  error = Some (bucketNotFoundMessage e)\<rparr>, w')
              else if rc < maxRetries then
                attemptUpload e sid b (rc + 1) onProgress
                  (emit (Sleep (retryDelay * (rc + 1))) w')
              else
                (\<lparr>success = False, transcript = None, audioUrl = None,
                  error = Some (exhaustedMessage errorMessage)\<rparr>,
                 addPendingUpload e sid b w')))"
  by pat_completeness auto
termination
  by (relation "measure (\<lambda>(e, sid, b, rc, onProgress, w). maxRetries - rc)") auto

declare attemptUpload.simps [simp del]

definition uploadAudio ::
  "env \<Rightarrow> string \<Rightarrow> blob \<Rightarrow> bool \<Rightarrow> world \<Rightarrow> outcome \<times> world" where
  "uploadAudio e sid b onProgress w =
     (let (isConnected, w1) = checkServerConnection e w
      in if \<not> isConnected then
           (\<lparr>success = False, transcript = None, audioUrl = None,
             error = Some ''Supabase is not reachable. Recording saved for later upload.''\<rparr>,
            addPendingUpload e sid b w1)
         else attemptUpload e sid b 0 onProgress w1)"

text \<open>
  \<open>retryPendingUploads\<close> reads the queue once and walks it; \<open>retryStatus\<close> is its own
  optional callback, \<open>uploadAudio\<close> is called without a progress callback. No \<open>try\<close>
  block encloses the status callback, which is taken to return.
\<close>

definition retryStatus :: "bool \<Rightarrow> string \<Rightarrow> string \<Rightarrow> world \<Rightarrow> world" where
  "retryStatus onProgress sid st w = (if onProgress then emit (RetryStatus sid st) w else w)"

fun retryLoop :: "env \<Rightarrow> bool \<Rightarrow> pendingUpload list \<Rightarrow> world \<Rightarrow> world" where
  "retryLoop e onProgress [] w = w"
| "retryLoop e onProgress (upload # rest) w =
     (let w1 = retryStatus onProgress (sessionId upload) ''retrying'' w
      in case getAudioBlob (sessionId upload) w1 of
           None \<Rightarrow> retryLoop e onProgress rest w1
         | Some blob \<Rightarrow>
             (let (result, w2) = uploadAudio e (sessionId upload) blob False w1;
                  w3 = (if success result
                        then retryStatus onProgress (sessionId upload) ''success'' w2
                        else retryStatus onProgress (sessionId upload) ''failed'' w2)
              in retryLoop e onProgress rest w3))"

definition retryPendingUploads :: "env \<Rightarrow> bool \<Rightarrow> world \<Rightarrow> world" where
  "retryPendingUploads e onProgress w =
     (let pending = getPendingUploads w in retryLoop e onProgress pending w)"

section \<open>Customer deletion in the application shell (src/unnamed/part_003, part_002)\<close>

text \<open>
  The React state of \<open>App\<close> that the handler reads (\<open>customers\<close>, \<open>sessions\<close>) and sets.
  The answer of the \<open>confirm\<close> dialog is an input. \<open>db.deleteSessionsByCustomer\<close> and
  \<open>db.deleteCustomer\<close> (src/unnamed/part_004) issue one remote delete each and throw when
  it reports an error; the first throw leaves the \<open>try\<close> block.
\<close>

record appState =
  customers :: "customer list"
  sessions :: "chatSession list"

text \<open>\<open>handleDeleteCustomer\<close> of src/unnamed/part_003.\<close>

definition handleDeleteCustomer ::
  "env \<Rightarrow> bool \<Rightarrow> string \<Rightarrow> appState \<times> world \<Rightarrow> appState \<times> world" where
  "handleDeleteCustomer e confirmed cid sw =
     (let (st, w) = sw
      in if confirmed then
           (let updatedCustomers = filter (\<lambda>c. customer_id c \<noteq> cid) (customers st);
                st1 = st\<lparr>customers := updatedCustomers\<rparr>;
                w1 = emit (DbDeleteSessionsByCustomer cid) w;
                w3 = (case db_deleteSessionsByCustomer e (trace w1) of
                        Some err \<Rightarrow> saveCustomers updatedCustomers w1
                      | None \<Rightarrow>
                          (let w2 = emit (DbDeleteCustomer cid) w1
                           in case db_deleteCustomer e (trace w2) of
                                Some err \<Rightarrow> saveCustomers updatedCustomers w2
                              | None \<Rightarrow> w2));
                updatedSessions = filter (\<lambda>s. customerId s \<noteq> cid) (sessions st);
                st2 = st1\<lparr>sessions := updatedSessions\<rparr>;
                w4 = saveSessions updatedSessions w3;
                w5 = fold (\<lambda>session w. if customerId session = cid
                                        then deleteAudioBlob (session_id session) w else w)
                       updatedSessions w4
            in (st2, w5))
         else (st, w))"

text \<open>
  \<open>handleDeleteCustomer\<close> of src/unnamed/part_002: the same handler with the two remote
  deletes in the other order.
\<close>

definition handleDeleteCustomer_part_002 ::
  "env \<Rightarrow> bool \<Rightarrow> string \<Rightarrow> appState \<times> world \<Rightarrow> appState \<times> world" where
  "handleDeleteCustomer_part_002 e confirmed cid sw =
     (let (st, w) = sw
      in if confirmed then
           (let updatedCustomers = filter (\<lambda>c. customer_id c \<noteq> cid) (customers st);
                st1 = st\<lparr>customers := updatedCustomers\<rparr>;
                w1 = emit (DbDeleteCustomer cid) w;
                w3 = (case db_deleteCustomer e (trace w1) of
                        Some err \<Rightarrow> saveCustomers updatedCustomers w1
                      | None \<Rightarrow>
                          (let w2 = emit (DbDeleteSessionsByCustomer cid) w1
                           in case db_deleteSessionsByCustomer e (trace w2) of
                                Some err \<Rightarrow> saveCustomers updatedCustomers w2
                              | None \<Rightarrow> w2));
                updatedSessions = filter (\<lambda>s. customerId s \<noteq> cid) (sessions st);
                st2 = st1\<lparr>sessions := updatedSessions\<rparr>;
                w4 = saveSessions updatedSessions w3;
                w5 = fold (\<lambda>session w. if customerId session = cid
                                        then deleteAudioBlob (session_id session) w else w)
                       updatedSessions w4
            in (st2, w5))
         else (st, w))"

section \<open>Auxiliary notions for stating the properties\<close>

text \<open>
  Reading a trace: the upload calls, the sleeps, the answers the environment gave to the
  upload calls among the events \<open>evs\<close> emitted after history \<open>h\<close>, the values passed to the
  progress callback, and the events emitted after the first upload call that was
  answered with the bucket-not-found error.
\<close>

fun isUpload :: "event \<Rightarrow> bool" where
  "isUpload (StorageUpload p f) = True"
| "isUpload _ = False"

fun isSleep :: "event \<Rightarrow> bool" where
  "isSleep (Sleep ms) = True"
| "isSleep _ = False"


fun uploadAnswers :: "env \<Rightarrow> event list \<Rightarrow> event list \<Rightarrow> thrown option list" where
  "uploadAnswers e h [] = []"
| "uploadAnswers e h (ev # evs) =
     (if isUpload ev then [storage_upload e (h @ [ev])] else []) @ uploadAnswers e (h @ [ev]) evs"

fun progressValues :: "event list \<Rightarrow> int list" where
  "progressValues [] = []"
| "progressValues (Progress p # evs) = p # progressValues evs"
| "progressValues (ev # evs) = progressValues evs"

fun eventsAfterBucketNotFound :: "env \<Rightarrow> event list \<Rightarrow> event list \<Rightarrow> event list option" where
  "eventsAfterBucketNotFound e h [] = None"
| "eventsAfterBucketNotFound e h (ev # evs) =
     (if isUpload ev \<and>
         (case storage_upload e (h @ [ev]) of None \<Rightarrow> False | Some err \<Rightarrow> isBucketNotFound err)
      then Some evs
      else eventsAfterBucketNotFound e (h @ [ev]) evs)"

definition bucketNotFoundOutcome :: "env \<Rightarrow> outcome" where
  "bucketNotFoundOutcome e =
     \<lparr>success = False, transcript = None, audioUrl = None,
      error = Some (bucketNotFoundMessage e)\<rparr>"

text \<open>
  The transcriber's answers on which \<open>generateTranscriptWithGemini\<close> gives up and returns
  the empty string, and whether every transcriber call among the events \<open>evs\<close> emitted
  after history \<open>h\<close> got such an answer (none is made when the API key is not configured).
\<close>

fun isTranscriptionFailure :: "gemini_response \<Rightarrow> bool" where
  "isTranscriptionFailure FetchThrows = True"
| "isTranscriptionFailure (NotOk errText) = True"
| "isTranscriptionFailure OkInvalid = True"
| "isTranscriptionFailure (OkParts parts) = False"

fun transcriberFails :: "env \<Rightarrow> event list \<Rightarrow> event list \<Rightarrow> bool" where
  "transcriberFails e h [] = True"
| "transcriberFails e h (ev # evs) =
     ((case ev of
         GeminiFetch b \<Rightarrow> isTranscriptionFailure (gemini_fetch e (h @ [ev]))
       | _ \<Rightarrow> True) \<and>
      transcriberFails e (h @ [ev]) evs)"

text \<open>
  Whether, among the events \<open>evs\<close> emitted after history \<open>h\<close>, one of the calls that the
  \<open>try\<close> block makes after the transfer threw: the progress callback at 60 or at 100, or
  \<open>createSignedUrl\<close>.
\<close>

fun throwsAfterTransfer :: "env \<Rightarrow> event list \<Rightarrow> event list \<Rightarrow> bool" where
  "throwsAfterTransfer e h [] = False"
| "throwsAfterTransfer e h (ev # evs) =
     ((case ev of
         Progress p \<Rightarrow> p \<noteq> 10 \<and> on_progress e (h @ [ev]) \<noteq> None
       | CreateSignedUrl p s \<Rightarrow>
           (case signed_url e (h @ [ev]) of SignedThrows err \<Rightarrow> True | _ \<Rightarrow> False)
       | _ \<Rightarrow> False) \<or>
      throwsAfterTransfer e (h @ [ev]) evs)"

text \<open>
  Whether, among the events \<open>evs\<close> emitted after history \<open>h\<close>, an upload call that was
  answered without error is followed by a sleep, that is, by a retry.
\<close>

fun retryAfterTransfer :: "env \<Rightarrow> event list \<Rightarrow> event list \<Rightarrow> bool" where
  "retryAfterTransfer e h [] = False"
| "retryAfterTransfer e h (ev # evs) =
     ((isUpload ev \<and> storage_upload e (h @ [ev]) = None \<and> list_ex isSleep evs) \<or>
      retryAfterTransfer e (h @ [ev]) evs)"

text \<open>Sequences of queue operations, and the session ids in the queue.\<close>

datatype queueOp = AddPendingUpload string blob | RemovePendingUpload string

fun applyOp :: "env \<Rightarrow> queueOp \<Rightarrow> world \<Rightarrow> world" where
  "applyOp e (AddPendingUpload sid b) w = addPendingUpload e sid b w"
| "applyOp e (RemovePendingUpload sid) w = removePendingUpload sid w"

fun runOps :: "env \<Rightarrow> queueOp list \<Rightarrow> world \<Rightarrow> world" where
  "runOps e [] w = w"
| "runOps e (op # ops) w = runOps e ops (applyOp e op w)"

definition pendingIds :: "world \<Rightarrow> string list" where
  "pendingIds w = map sessionId (getPendingUploads w)"

fun freshAdd :: "queueOp \<Rightarrow> world \<Rightarrow> bool" where
  "freshAdd (AddPendingUpload sid b) w = (sid \<notin> set (pendingIds w))"
| "freshAdd (RemovePendingUpload sid) w = True"

fun freshAdds :: "env \<Rightarrow> queueOp list \<Rightarrow> world \<Rightarrow> bool" where
  "freshAdds e [] w = True"
| "freshAdds e (op # ops) w = (freshAdd op w \<and> freshAdds e ops (applyOp e op w))"

text \<open>
  Whether every awaited storage call among the events \<open>evs\<close> emitted after history \<open>h\<close>
  succeeded: the bucket listing and the upload were answered without error, and
  \<open>createSignedUrl\<close> did not reject.
\<close>

fun storageCallsOk :: "env \<Rightarrow> event list \<Rightarrow> event list \<Rightarrow> bool" where
  "storageCallsOk e h [] = True"
| "storageCallsOk e h (ev # evs) =
     ((case ev of
         StorageList \<Rightarrow> storage_list e (h @ [ev]) = ListOk
       | StorageUpload p f \<Rightarrow> storage_upload e (h @ [ev]) = None
       | CreateSignedUrl p s \<Rightarrow>
           (case signed_url e (h @ [ev]) of SignedThrows err \<Rightarrow> False | _ \<Rightarrow> True)
       | _ \<Rightarrow> True) \<and>
      storageCallsOk e (h @ [ev]) evs)"

section \<open>Concrete inputs\<close>

definition world0 :: world where
  "world0 = \<lparr>rm_customers = None, rm_chat_sessions = None, rm_pending_uploads = None,
     rm_audio_blobs = None, trace = []\<rparr>"

definition blob0 :: blob where
  "blob0 = \<lparr>blob_bytes = ''RIFF'', blob_type = ''audio/webm''\<rparr>"

definition envOk :: env where
  "envOk = \<lparr>VITE_GEMINI_API_KEY = Some ''key'',
     VITE_SUPABASE_STORAGE_BUCKET = None,
     storage_list = (\<lambda>h. ListOk),
     storage_upload = (\<lambda>h. None),
     public_url = (\<lambda>h. ''https://store/recordings''),
     signed_url = (\<lambda>h. SignedError),
     on_progress = (\<lambda>h. None),
     gemini_fetch = (\<lambda>h. OkParts [Some ''hello'']),
     now = (\<lambda>h. ''2024-01-01T00:00:00.000Z''),
     db_deleteSessionsByCustomer = (\<lambda>h. None),
     db_deleteCustomer = (\<lambda>h. None)\<rparr>"

definition envOffline :: env where
  "envOffline = envOk\<lparr>storage_list := (\<lambda>h. ListThrows)\<rparr>"

definition pendingOf :: "string \<Rightarrow> pendingUpload" where
  "pendingOf sid =
     \<lparr>sessionId = sid, audioBlob = blob0, retryCount = 0,
      lastAttempt = ''2024-01-01T00:00:00.000Z''\<rparr>"

definition worldQueued :: world where
  "worldQueued = world0
     \<lparr>rm_pending_uploads := Some [pendingOf ''s1'', pendingOf ''s2''],
      rm_audio_blobs := Some [''s1'' \<mapsto> DataURL blob0, ''s2'' \<mapsto> DataURL blob0]\<rparr>"

text \<open>
  Environments: one whose storage always answers that the bucket is missing, one whose
  transfers always fail transiently, one whose first transfer fails transiently and whose
  second is answered with the missing bucket, and one whose third transfer succeeds while
  the transcriber answers with an error status. Then two whose transfers succeed, whose
  store has no public URL and whose \<open>createSignedUrl\<close> rejects: in the first on every
  call, with no transcriber key configured; in the second on the first call only.
\<close>

definition envNoBucket :: env where
  "envNoBucket = envOk\<lparr>storage_upload := (\<lambda>h. Some (ErrorWithMessage ''Bucket not found''))\<rparr>"

definition envFailing :: env where
  "envFailing = envOk\<lparr>storage_upload := (\<lambda>h. Some (ErrorWithMessage ''Failed to fetch''))\<rparr>"

definition envLateBucket :: env where
  "envLateBucket = envOk\<lparr>storage_upload :=
     (\<lambda>h. if length (filter isUpload h) < 2 then Some (ErrorWithMessage ''Failed to fetch'')
          else Some (ErrorWithMessage ''Bucket not found''))\<rparr>"




text \<open>A customer with two uploaded sessions whose audio is in the local cache.\<close>

definition customer1 :: customer where
  "customer1 = \<lparr>customer_id = ''c1'', name = ''Ada'', email = ''ada@example.org'',
     phone = ''555'', createdAt = ''2024-01-01T00:00:00.000Z''\<rparr>"

definition sessionOf :: "string \<Rightarrow> chatSession" where
  "sessionOf sid = \<lparr>session_id = sid, customerId = ''c1'', customerName = ''Ada'',
     date = ''2024-01-02T00:00:00.000Z'', session_audioBlob = None,
     session_audioUrl = Some ''https://store/recordings'', session_transcript = ''hello'',
     duration = 3, session_status = uploaded\<rparr>"

definition appTwoSessions :: appState where
  "appTwoSessions = \<lparr>customers = [customer1], sessions = [sessionOf ''s1'', sessionOf ''s2'']\<rparr>"

definition worldTwoBlobs :: world where
  "worldTwoBlobs = world0
     \<lparr>rm_chat_sessions := Some [sessionOf ''s1'', sessionOf ''s2''],
      rm_audio_blobs := Some [''s1'' \<mapsto> DataURL blob0, ''s2'' \<mapsto> DataURL blob0]\<rparr>"

section \<open>How each operation changes the world\<close>

lemma emitAll_fields:
  "trace (emitAll w evs) = trace w @ evs"
  "rm_pending_uploads (emitAll w evs) = rm_pending_uploads w"
  "rm_audio_blobs (emitAll w evs) = rm_audio_blobs w"
  "rm_customers (emitAll w evs) = rm_customers w"
  "rm_chat_sessions (emitAll w evs) = rm_chat_sessions w"
  by (simp_all add: emitAll_def)

lemma emitAll_emitAll: "emitAll (emitAll w xs) ys = emitAll w (xs @ ys)"
  by (simp add: emitAll_def)

lemma emitAll_Nil: "emitAll w [] = w"
  by (simp add: emitAll_def)

lemma emit_emitAll: "emit ev w = emitAll w [ev]"
  by (simp add: emit_def emitAll_def)

lemma emitted_emitAll: "emitted w (emitAll w evs) = evs"
  by (simp add: emitted_def emitAll_def)

lemma progress_eq:
  "progress e onProgress p w =
     (if onProgress then on_progress e (trace w @ [Progress p]) else None,
      emitAll w (if onProgress then [Progress p] else []))"
  by (simp add: progress_def Let_def emit_emitAll emitAll_fields emitAll_Nil)

lemma resolveUrl_cases:
  obtains (publicUrl) url where "url \<noteq> []"
      "resolveUrl e p w = (Inr url, emitAll w [GetPublicUrl p])"
  | (signedUrl) url where
      "\<forall>err. signed_url e (trace w @ [GetPublicUrl p, CreateSignedUrl p (60 * 60)]) \<noteq> SignedThrows err"
      "resolveUrl e p w = (Inr url, emitAll w [GetPublicUrl p, CreateSignedUrl p (60 * 60)])"
  | (rejects) err where
      "signed_url e (trace w @ [GetPublicUrl p, CreateSignedUrl p (60 * 60)]) = SignedThrows err"
      "resolveUrl e p w = (Inl err, emitAll w [GetPublicUrl p, CreateSignedUrl p (60 * 60)])"
proof (cases "public_url e (trace w @ [GetPublicUrl p]) = []")
  case False
  then show ?thesis
    by (intro publicUrl [of "public_url e (trace w @ [GetPublicUrl p])"])
       (simp_all add: resolveUrl_def Let_def emit_emitAll emitAll_fields)
next
  case True
  show ?thesis
  proof (cases "signed_url e (trace w @ [GetPublicUrl p, CreateSignedUrl p (60 * 60)])")
    case (SignedUrl u)
    with True show ?thesis
      by (intro signedUrl [of u])
         (simp_all add: resolveUrl_def Let_def emit_emitAll emitAll_fields emitAll_emitAll)
  next
    case SignedError
    with True show ?thesis
      by (intro signedUrl [of "[]"])
         (simp_all add: resolveUrl_def Let_def emit_emitAll emitAll_fields emitAll_emitAll)
  next
    case (SignedThrows err)
    with True show ?thesis
      by (intro rejects [of err])
         (simp_all add: resolveUrl_def Let_def emit_emitAll emitAll_fields emitAll_emitAll)
  qed
qed

lemma generateTranscript_cases:
  obtains (unconfigured) "generateTranscriptWithGemini e b w = ([], w)"
  | (called) tr where
      "isTranscriptionFailure (gemini_fetch e (trace w @ [GeminiFetch b])) \<longrightarrow> tr = []"
      "generateTranscriptWithGemini e b w = (tr, emitAll w [GeminiFetch b])"
proof (cases "VITE_GEMINI_API_KEY e = None \<or> VITE_GEMINI_API_KEY e = Some []")
  case True
  then show ?thesis
    by (intro unconfigured) (simp add: generateTranscriptWithGemini_def)
next
  case False
  then show ?thesis
    by (intro called [of "fst (generateTranscriptWithGemini e b w)"])
       (auto simp: generateTranscriptWithGemini_def Let_def emit_emitAll emitAll_fields
          split: gemini_response.splits)
qed


lemma removePendingUpload_fields:
  "trace (removePendingUpload sid w) = trace w"
  "rm_pending_uploads (removePendingUpload sid w) =
     Some (filter (\<lambda>u. sessionId u \<noteq> sid) (getPendingUploads w))"
  "rm_audio_blobs (removePendingUpload sid w) = rm_audio_blobs w"
  by (simp_all add: removePendingUpload_def savePendingUploads_def Let_def)

lemma getPendingUploads_emitAll: "getPendingUploads (emitAll w evs) = getPendingUploads w"
  by (simp add: getPendingUploads_def emitAll_fields)

text \<open>
  The runs of the \<open>try\<close> block: where it is left, with what, and which events it has
  emitted by then.
\<close>

lemma attemptUpload_try_cases
  [case_names throw10 uploadFails throw60 signedRejects throw100 completes]:
  fixes e sid b onProgress w
  defines "U \<equiv> StorageUpload (filePathOf sid) (fileOf b)"
    and "G \<equiv> GetPublicUrl (filePathOf sid)"
    and "C \<equiv> CreateSignedUrl (filePathOf sid) (60 * 60)"
  obtains
    (throw10) err where "onProgress"
      "on_progress e (trace w @ [Progress 10]) = Some err"
      "attemptUpload_try e sid b onProgress w = (Inl err, emitAll w [Progress 10])"
  | (uploadFails) err P10 where
      "P10 = (if onProgress then [Progress 10] else [])"
      "storage_upload e (trace w @ P10 @ [U]) = Some err"
      "attemptUpload_try e sid b onProgress w = (Inl err, emitAll w (P10 @ [U]))"
  | (throw60) err where "onProgress"
      "storage_upload e (trace w @ [Progress 10, U]) = None"
      "on_progress e (trace w @ [Progress 10, U, Progress 60]) = Some err"
      "attemptUpload_try e sid b onProgress w = (Inl err, emitAll w [Progress 10, U, Progress 60])"
  | (signedRejects) err P10 P60 where
      "P10 = (if onProgress then [Progress 10] else [])"
      "P60 = (if onProgress then [Progress 60] else [])"
      "onProgress \<longrightarrow> on_progress e (trace w @ P10 @ [U] @ P60) = None"
      "storage_upload e (trace w @ P10 @ [U]) = None"
      "signed_url e (trace w @ P10 @ [U] @ P60 @ [G, C]) = SignedThrows err"
      "attemptUpload_try e sid b onProgress w = (Inl err, emitAll w (P10 @ [U] @ P60 @ [G, C]))"
  | (throw100) err us gs where "onProgress"
      "storage_upload e (trace w @ [Progress 10, U]) = None"
      "on_progress e (trace w @ [Progress 10, U, Progress 60]) = None"
      "us = [G] \<or> us = [G, C] \<and>
         (\<forall>x. signed_url e (trace w @ [Progress 10, U, Progress 60] @ us) \<noteq> SignedThrows x)"
      "gs = [] \<or> gs = [GeminiFetch b]"
      "on_progress e (trace w @ [Progress 10, U, Progress 60] @ us @ gs @ [Progress 100]) = Some err"
      "attemptUpload_try e sid b onProgress w =
         (Inl err, emitAll w ([Progress 10, U, Progress 60] @ us @ gs @ [Progress 100]))"
  | (completes) url tr us gs P10 P60 P100 where
      "P10 = (if onProgress then [Progress 10] else [])"
      "P60 = (if onProgress then [Progress 60] else [])"
      "P100 = (if onProgress then [Progress 100] else [])"
      "storage_upload e (trace w @ P10 @ [U]) = None"
      "onProgress \<longrightarrow> on_progress e (trace w @ P10 @ [U] @ P60) = None"
      "us = [G] \<or> us = [G, C] \<and>
         (\<forall>x. signed_url e (trace w @ P10 @ [U] @ P60 @ us) \<noteq> SignedThrows x)"
      "gs = [] \<and> tr = [] \<or> gs = [GeminiFetch b] \<and>
         (isTranscriptionFailure (gemini_fetch e (trace w @ P10 @ [U] @ P60 @ us @ gs)) \<longrightarrow> tr = [])"
      "onProgress \<longrightarrow> on_progress e (trace w @ P10 @ [U] @ P60 @ us @ gs @ P100) = None"
      "attemptUpload_try e sid b onProgress w =
         (Inr \<lparr>success = True, transcript = Some tr, audioUrl = Some url, error = None\<rparr>,
          removePendingUpload sid (emitAll w (P10 @ [U] @ P60 @ us @ gs @ P100)))"
proof -
  let ?P10 = "if onProgress then [Progress 10] else []"
  let ?P60 = "if onProgress then [Progress 60] else []"
  let ?P100 = "if onProgress then [Progress 100] else []"
  let ?T = "attemptUpload_try e sid b onProgress w"
  let ?w2 = "emitAll w (?P10 @ [U])"
  let ?w3 = "emitAll w (?P10 @ [U] @ ?P60)"
  note ev = attemptUpload_try_def progress_eq Let_def emit_emitAll emitAll_emitAll emitAll_fields
    emitAll_Nil U_def G_def C_def
  show ?thesis
  proof (cases "onProgress \<and> on_progress e (trace w @ [Progress 10]) \<noteq> None")
    case True
    then obtain err where "on_progress e (trace w @ [Progress 10]) = Some err" by blast
    with True show ?thesis
      by (intro throw10 [where err = err]) (simp_all add: ev)
  next
    case c10: False
    show ?thesis
    proof (cases "storage_upload e (trace ?w2)")
      case (Some err)
      show ?thesis
      proof (rule uploadFails [where ?P10.0 = ?P10 and err = err])
        show "storage_upload e (trace w @ ?P10 @ [U]) = Some err"
          using Some by (simp add: emitAll_fields)
        show "?T = (Inl err, emitAll w (?P10 @ [U]))"
          using c10 Some by (cases onProgress) (simp_all add: ev)
      qed simp
    next
      case up: None
      have up': "storage_upload e (trace w @ ?P10 @ [U]) = None"
        using up by (simp add: emitAll_fields)
      show ?thesis
      proof (cases "onProgress \<and> on_progress e (trace ?w2 @ [Progress 60]) \<noteq> None")
        case True
        then obtain err where err: "on_progress e (trace ?w2 @ [Progress 60]) = Some err"
          by blast
        show ?thesis
        proof (rule throw60 [where err = err])
          show "onProgress" using True by simp
          show "storage_upload e (trace w @ [Progress 10, U]) = None"
            using up True by (simp add: emitAll_fields)
          show "on_progress e (trace w @ [Progress 10, U, Progress 60]) = Some err"
            using err True by (simp add: emitAll_fields)
          show "?T = (Inl err, emitAll w [Progress 10, U, Progress 60])"
            using c10 up err True by (simp add: ev)
        qed
      next
        case c60: False
        have c60': "onProgress \<longrightarrow> on_progress e (trace w @ ?P10 @ [U] @ ?P60) = None"
          using c60 by (simp add: emitAll_fields)
        have tail: thesis
          if res: "resolveUrl e (filePathOf sid) ?w3 = (Inr url, emitAll ?w3 us)"
            and usC: "us = [G] \<or> us = [G, C] \<and>
              (\<forall>x. signed_url e (trace ?w3 @ us) \<noteq> SignedThrows x)"
          for url us
        proof -
          let ?w4 = "emitAll ?w3 us"
          have "\<exists>tr gs. generateTranscriptWithGemini e b ?w4 = (tr, emitAll ?w4 gs) \<and>
              (gs = [] \<and> tr = [] \<or> gs = [GeminiFetch b] \<and>
                 (isTranscriptionFailure (gemini_fetch e (trace ?w4 @ gs)) \<longrightarrow> tr = []))"
          proof (cases rule: generateTranscript_cases [of e b ?w4])
            case unconfigured
            then show ?thesis
              by (intro exI [of _ "[]"]) (simp add: emitAll_Nil)
          next
            case (called tr)
            then show ?thesis
              by (intro exI [of _ tr] exI [of _ "[GeminiFetch b]"]) simp
          qed
          then obtain tr gs where
            gen: "generateTranscriptWithGemini e b ?w4 = (tr, emitAll ?w4 gs)" and
            gsC: "gs = [] \<and> tr = [] \<or> gs = [GeminiFetch b] \<and>
                 (isTranscriptionFailure (gemini_fetch e (trace ?w4 @ gs)) \<longrightarrow> tr = [])"
            by blast
          let ?w5 = "emitAll ?w4 gs"
          have usC': "us = [G] \<or> us = [G, C] \<and>
              (\<forall>x. signed_url e (trace w @ ?P10 @ [U] @ ?P60 @ us) \<noteq> SignedThrows x)"
            using usC by (simp add: emitAll_fields)
          show thesis
          proof (cases "onProgress \<and> on_progress e (trace ?w5 @ [Progress 100]) \<noteq> None")
            case True
            then obtain err where err: "on_progress e (trace ?w5 @ [Progress 100]) = Some err"
              by blast
            show ?thesis
            proof (rule throw100 [where err = err and us = us and gs = gs])
              show "onProgress" using True by simp
              show "storage_upload e (trace w @ [Progress 10, U]) = None"
                using up True by (simp add: emitAll_fields)
              show "on_progress e (trace w @ [Progress 10, U, Progress 60]) = None"
                using c60 True by (simp add: emitAll_fields)
              show "us = [G] \<or> us = [G, C] \<and>
                (\<forall>x. signed_url e (trace w @ [Progress 10, U, Progress 60] @ us) \<noteq> SignedThrows x)"
                using usC' True by simp
              show "gs = [] \<or> gs = [GeminiFetch b]" using gsC by blast
              show "on_progress e
                  (trace w @ [Progress 10, U, Progress 60] @ us @ gs @ [Progress 100]) = Some err"
                using err True by (simp add: emitAll_fields)
              show "?T = (Inl err, emitAll w ([Progress 10, U, Progress 60] @ us @ gs @ [Progress 100]))"
                using c10 up c60 res gen err True by (simp add: ev)
            qed
          next
            case c100: False
            show ?thesis
            proof (rule completes [where ?P10.0 = ?P10 and ?P60.0 = ?P60 and ?P100.0 = ?P100 and us = us
                and gs = gs and tr = tr and url = url])
              show "storage_upload e (trace w @ ?P10 @ [U]) = None" by (rule up')
              show "onProgress \<longrightarrow> on_progress e (trace w @ ?P10 @ [U] @ ?P60) = None"
                by (rule c60')
              show "us = [G] \<or> us = [G, C] \<and>
                (\<forall>x. signed_url e (trace w @ ?P10 @ [U] @ ?P60 @ us) \<noteq> SignedThrows x)"
                by (rule usC')
              show "gs = [] \<and> tr = [] \<or> gs = [GeminiFetch b] \<and>
                (isTranscriptionFailure (gemini_fetch e (trace w @ ?P10 @ [U] @ ?P60 @ us @ gs))
                   \<longrightarrow> tr = [])"
                using gsC by (simp add: emitAll_fields)
              show "onProgress \<longrightarrow>
                on_progress e (trace w @ ?P10 @ [U] @ ?P60 @ us @ gs @ ?P100) = None"
                using c100 by (simp add: emitAll_fields)
              show "?T =
                (Inr \<lparr>success = True, transcript = Some tr, audioUrl = Some url, error = None\<rparr>,
                 removePendingUpload sid (emitAll w (?P10 @ [U] @ ?P60 @ us @ gs @ ?P100)))"
                using c10 up c60 res gen c100 by (cases onProgress) (simp_all add: ev)
            qed simp_all
          qed
        qed
        show ?thesis
        proof (cases rule: resolveUrl_cases [of e "filePathOf sid" ?w3])
          case (rejects err)
          show ?thesis
          proof (rule signedRejects [where ?P10.0 = ?P10 and ?P60.0 = ?P60 and err = err])
            show "signed_url e (trace w @ ?P10 @ [U] @ ?P60 @ [G, C]) = SignedThrows err"
              using rejects(1) by (simp add: emitAll_fields G_def C_def)
            show "?T = (Inl err, emitAll w (?P10 @ [U] @ ?P60 @ [G, C]))"
              using c10 up c60 rejects(2) by (cases onProgress) (simp_all add: ev)
          qed (use c60' up' in simp_all)
        next
          case (publicUrl url)
          show ?thesis
            by (rule tail [where url = url and us = "[G]"]) (use publicUrl(2) in \<open>simp_all add: G_def\<close>)
        next
          case (signedUrl url)
          show ?thesis
            by (rule tail [where url = url and us = "[G, C]"])
               (use signedUrl in \<open>simp_all add: G_def C_def emitAll_fields\<close>)
        qed
      qed
    qed
  qed
qed

section \<open>The \<open>try\<close> block of an attempt\<close>

lemma emitted_removePendingUpload:
  "emitted w (removePendingUpload sid (emitAll w evs)) = evs"
  by (simp add: emitted_def removePendingUpload_fields emitAll_fields)

lemma uploadAnswers_append:
  "uploadAnswers e h (xs @ ys) = uploadAnswers e h xs @ uploadAnswers e (h @ xs) ys"
  by (induction xs arbitrary: h) simp_all

lemma eventsAfterBucketNotFound_append:
  "eventsAfterBucketNotFound e h (xs @ ys) =
     (case eventsAfterBucketNotFound e h xs of
        Some rest \<Rightarrow> Some (rest @ ys)
      | None \<Rightarrow> eventsAfterBucketNotFound e (h @ xs) ys)"
  by (induction xs arbitrary: h) (simp_all split: option.splits)

lemma progressValues_append:
  "progressValues (xs @ ys) = progressValues xs @ progressValues ys"
  by (induction xs rule: progressValues.induct) simp_all

lemma throwsAfterTransfer_append:
  "throwsAfterTransfer e h (xs @ ys) =
     (throwsAfterTransfer e h xs \<or> throwsAfterTransfer e (h @ xs) ys)"
  by (induction xs arbitrary: h) auto

lemma transcriberFails_append:
  "transcriberFails e h (xs @ ys) =
     (transcriberFails e h xs \<and> transcriberFails e (h @ xs) ys)"
  by (induction xs arbitrary: h) auto

lemma storageCallsOk_append:
  "storageCallsOk e h (xs @ ys) = (storageCallsOk e h xs \<and> storageCallsOk e (h @ xs) ys)"
  by (induction xs arbitrary: h) simp_all


lemma retryAfterTransfer_no_sleep:
  "\<not> list_ex isSleep evs \<Longrightarrow> \<not> retryAfterTransfer e h evs"
  by (induction evs arbitrary: h) auto

text \<open>What every run of the \<open>try\<close> block has in common.\<close>

lemma try_common:
  fixes e sid b onProgress w
  defines "T \<equiv> attemptUpload_try e sid b onProgress w"
  shows "trace (snd T) = trace w @ emitted w (snd T)"
    and "rm_audio_blobs (snd T) = rm_audio_blobs w"
    and "\<not> list_ex isSleep (emitted w (snd T))"
    and "sorted (progressValues (emitted w (snd T)))"
    and "set (progressValues (emitted w (snd T))) \<subseteq> {10, 60, 100}"
    and "\<not> onProgress \<Longrightarrow> progressValues (emitted w (snd T)) = []"
proof -
  note ev = emitAll_fields emitted_emitAll removePendingUpload_fields emitted_removePendingUpload
    progressValues_append
  have "trace (snd T) = trace w @ emitted w (snd T) \<and>
    rm_audio_blobs (snd T) = rm_audio_blobs w \<and>
    \<not> list_ex isSleep (emitted w (snd T)) \<and>
    sorted (progressValues (emitted w (snd T))) \<and>
    set (progressValues (emitted w (snd T))) \<subseteq> {10, 60, 100} \<and>
    (\<not> onProgress \<longrightarrow> progressValues (emitted w (snd T)) = [])"
  proof (cases rule: attemptUpload_try_cases [where e = e and sid = sid and b = b
        and onProgress = onProgress and w = w])
    case (throw10 err)
    show ?thesis unfolding T_def throw10(3) using throw10(1) by (simp add: ev)
  next
    case (uploadFails err P10)
    show ?thesis unfolding T_def uploadFails(3) uploadFails(1) by (simp add: ev)
  next
    case (throw60 err)
    show ?thesis unfolding T_def throw60(4) using throw60(1) by (simp add: ev)
  next
    case (signedRejects err P10 P60)
    show ?thesis unfolding T_def signedRejects(6) signedRejects(1,2) by (simp add: ev)
  next
    case (throw100 err us gs)
    have "us = [GetPublicUrl (filePathOf sid)] \<or>
          us = [GetPublicUrl (filePathOf sid), CreateSignedUrl (filePathOf sid) (60 * 60)]"
      using throw100(4) by blast
    with throw100(5) throw100(1) show ?thesis unfolding T_def throw100(7)
      by (auto simp: ev)
  next
    case (completes url tr us gs P10 P60 P100)
    have "us = [GetPublicUrl (filePathOf sid)] \<or>
          us = [GetPublicUrl (filePathOf sid), CreateSignedUrl (filePathOf sid) (60 * 60)]"
      using completes(6) by blast
    moreover have "gs = [] \<or> gs = [GeminiFetch b]" using completes(7) by blast
    ultimately show ?thesis unfolding T_def completes(9) completes(1,2,3)
      by (auto simp: ev)
  qed
  then show "trace (snd T) = trace w @ emitted w (snd T)"
    and "rm_audio_blobs (snd T) = rm_audio_blobs w"
    and "\<not> list_ex isSleep (emitted w (snd T))"
    and "sorted (progressValues (emitted w (snd T)))"
    and "set (progressValues (emitted w (snd T))) \<subseteq> {10, 60, 100}"
    and "\<not> onProgress \<Longrightarrow> progressValues (emitted w (snd T)) = []"
    by simp_all
qed


text \<open>
  The four ways a run of the \<open>try\<close> block ends: it returns; the progress callback throws
  before the transfer; the transfer fails; a call after the transfer throws.
\<close>

lemma try_classes [case_names returns noTransfer transferFails throwsAfter]:
  fixes e sid b onProgress w
  defines "T \<equiv> attemptUpload_try e sid b onProgress w"
  defines "E \<equiv> emitted w (snd T)"
  obtains
    (returns) result where "fst T = Inr result" "success result" "error result = None"
      "rm_pending_uploads (snd T) = Some (filter (\<lambda>u. sessionId u \<noteq> sid) (getPendingUploads w))"
      "uploadAnswers e (trace w) E = [None]"
      "\<not> throwsAfterTransfer e (trace w) E"
      "eventsAfterBucketNotFound e (trace w) E = None"
      "onProgress \<Longrightarrow> progressValues E = [10, 60, 100]"
      "transcriberFails e (trace w) E \<Longrightarrow> transcript result = Some []"
  | (noTransfer) err where "fst T = Inl err" "onProgress"
      "rm_pending_uploads (snd T) = rm_pending_uploads w"
      "uploadAnswers e (trace w) E = []"
      "\<not> throwsAfterTransfer e (trace w) E"
      "eventsAfterBucketNotFound e (trace w) E = None"
      "progressValues E = [10]"
  | (transferFails) err where "fst T = Inl err"
      "rm_pending_uploads (snd T) = rm_pending_uploads w"
      "uploadAnswers e (trace w) E = [Some err]"
      "\<not> throwsAfterTransfer e (trace w) E"
      "eventsAfterBucketNotFound e (trace w) E = (if isBucketNotFound err then Some [] else None)"
      "progressValues E = (if onProgress then [10] else [])"
      "\<not> storageCallsOk e (trace w) E"
  | (throwsAfter) err where "fst T = Inl err"
      "rm_pending_uploads (snd T) = rm_pending_uploads w"
      "uploadAnswers e (trace w) E = [None]"
      "throwsAfterTransfer e (trace w) E"
      "eventsAfterBucketNotFound e (trace w) E = None"
      "\<not> onProgress \<Longrightarrow> \<not> storageCallsOk e (trace w) E"
proof -
  note ev = emitAll_fields emitted_emitAll removePendingUpload_fields emitted_removePendingUpload
    progressValues_append uploadAnswers_append eventsAfterBucketNotFound_append
    throwsAfterTransfer_append transcriberFails_append storageCallsOk_append
    getPendingUploads_emitAll
  show ?thesis
  proof (cases rule: attemptUpload_try_cases [where e = e and sid = sid and b = b
        and onProgress = onProgress and w = w])
    case (throw10 err)
    show ?thesis
    proof (rule noTransfer [where err = err])
      show "onProgress" by (rule throw10(1))
    qed (simp_all add: E_def T_def throw10(3) ev)
  next
    case (uploadFails err P10)
    have E: "E = P10 @ [StorageUpload (filePathOf sid) (fileOf b)]"
      by (simp add: E_def T_def uploadFails(3) ev)
    show ?thesis
    proof (rule transferFails [where err = err])
      show "fst T = Inl err" by (simp add: T_def uploadFails(3))
      show "rm_pending_uploads (snd T) = rm_pending_uploads w"
        by (simp add: T_def uploadFails(3) ev)
      show "uploadAnswers e (trace w) E = [Some err]"
        using uploadFails(2) unfolding E uploadFails(1) by (cases onProgress) simp_all
      show "\<not> throwsAfterTransfer e (trace w) E"
        unfolding E uploadFails(1) by (cases onProgress) simp_all
      show "eventsAfterBucketNotFound e (trace w) E =
          (if isBucketNotFound err then Some [] else None)"
        using uploadFails(2) unfolding E uploadFails(1) by (cases onProgress) simp_all
      show "progressValues E = (if onProgress then [10] else [])"
        unfolding E uploadFails(1) by simp
      show "\<not> storageCallsOk e (trace w) E"
        using uploadFails(2) unfolding E uploadFails(1) by (cases onProgress) simp_all
    qed
  next
    case (throw60 err)
    have E: "E = [Progress 10, StorageUpload (filePathOf sid) (fileOf b), Progress 60]"
      by (simp add: E_def T_def throw60(4) ev)
    show ?thesis
    proof (rule throwsAfter [where err = err])
      show "fst T = Inl err" by (simp add: T_def throw60(4))
      show "rm_pending_uploads (snd T) = rm_pending_uploads w"
        by (simp add: T_def throw60(4) ev)
      show "uploadAnswers e (trace w) E = [None]"
        using throw60(2) unfolding E by simp
      show "throwsAfterTransfer e (trace w) E"
        using throw60(3) unfolding E by simp
      show "eventsAfterBucketNotFound e (trace w) E = None"
        using throw60(2) unfolding E by simp
      show "\<not> onProgress \<Longrightarrow> \<not> storageCallsOk e (trace w) E"
        using throw60(1) by simp
    qed
  next
    case (signedRejects err P10 P60)
    have E: "E = P10 @ [StorageUpload (filePathOf sid) (fileOf b)] @ P60 @
        [GetPublicUrl (filePathOf sid), CreateSignedUrl (filePathOf sid) (60 * 60)]"
      by (simp add: E_def T_def signedRejects(6) ev)
    show ?thesis
    proof (rule throwsAfter [where err = err])
      show "fst T = Inl err" by (simp add: T_def signedRejects(6))
      show "rm_pending_uploads (snd T) = rm_pending_uploads w"
        by (simp add: T_def signedRejects(6) ev)
      show "uploadAnswers e (trace w) E = [None]"
        using signedRejects(4) unfolding E signedRejects(1,2) by (cases onProgress) simp_all
      show "throwsAfterTransfer e (trace w) E"
        using signedRejects(5) unfolding E signedRejects(1,2) by (cases onProgress) simp_all
      show "eventsAfterBucketNotFound e (trace w) E = None"
        using signedRejects(4) unfolding E signedRejects(1,2) by (cases onProgress) simp_all
      show "\<not> onProgress \<Longrightarrow> \<not> storageCallsOk e (trace w) E"
        using signedRejects(5) unfolding E signedRejects(1,2) by simp
    qed
  next
    case (throw100 err us gs)
    have us: "us = [GetPublicUrl (filePathOf sid)] \<or>
          us = [GetPublicUrl (filePathOf sid), CreateSignedUrl (filePathOf sid) (60 * 60)]"
      using throw100(4) by blast
    show ?thesis
    proof (rule throwsAfter [where err = err])
      show "fst T = Inl err" by (simp add: T_def throw100(7))
      show "rm_pending_uploads (snd T) = rm_pending_uploads w"
        by (simp add: T_def throw100(7) ev)
      show "uploadAnswers e (trace w) E = [None]"
        using us throw100(5) throw100(2) by (auto simp: E_def T_def throw100(7) ev)
      show "throwsAfterTransfer e (trace w) E"
        using throw100(6) by (simp add: E_def T_def throw100(7) ev)
      show "eventsAfterBucketNotFound e (trace w) E = None"
        using us throw100(5) throw100(2) by (auto simp: E_def T_def throw100(7) ev)
      show "\<not> onProgress \<Longrightarrow> \<not> storageCallsOk e (trace w) E"
        using throw100(1) by simp
    qed
  next
    case (completes url tr us gs P10 P60 P100)
    let ?h = "trace w @ P10 @ [StorageUpload (filePathOf sid) (fileOf b)] @ P60"
    have us: "us = [GetPublicUrl (filePathOf sid)] \<or>
          us = [GetPublicUrl (filePathOf sid), CreateSignedUrl (filePathOf sid) (60 * 60)] \<and>
          (\<forall>x. signed_url e (?h @ us) \<noteq> SignedThrows x)"
      using completes(6) by simp
    have us_up: "uploadAnswers e h' us = []" "eventsAfterBucketNotFound e h' us = None"
      "progressValues us = []" for h'
      using us by auto
    have us_throw: "\<not> throwsAfterTransfer e ?h us"
      using us by (auto split: signed_response.splits)
    have us_fail: "transcriberFails e ?h us" using us by auto
    have gs: "gs = [] \<or> gs = [GeminiFetch b]" using completes(7) by blast
    have gs_up: "uploadAnswers e h' gs = []" "eventsAfterBucketNotFound e h' gs = None"
      "progressValues gs = []" "\<not> throwsAfterTransfer e h' gs" for h'
      using gs by auto
    have gs_fail: "transcriberFails e (?h @ us) gs \<Longrightarrow> tr = []"
      using completes(7) by auto
    let ?result = "\<lparr>success = True, transcript = Some tr, audioUrl = Some url, error = None\<rparr>"
    have E: "E = P10 @ [StorageUpload (filePathOf sid) (fileOf b)] @ P60 @ us @ gs @ P100"
      by (simp add: E_def T_def completes(9) ev)
    show ?thesis
    proof (rule returns [where result = ?result])
      show "fst T = Inr ?result" by (simp add: T_def completes(9))
      show "rm_pending_uploads (snd T) =
          Some (filter (\<lambda>u. sessionId u \<noteq> sid) (getPendingUploads w))"
        by (simp add: T_def completes(9) ev)
      show "uploadAnswers e (trace w) E = [None]"
        using completes(4) unfolding E completes(1,2,3)
        by (cases onProgress) (simp_all add: uploadAnswers_append us_up gs_up)
      show "\<not> throwsAfterTransfer e (trace w) E"
        using completes(5,8) us_throw unfolding E completes(1,2,3)
        by (cases onProgress) (simp_all add: throwsAfterTransfer_append gs_up)
      show "eventsAfterBucketNotFound e (trace w) E = None"
        using completes(4) unfolding E completes(1,2,3)
        by (cases onProgress) (simp_all add: eventsAfterBucketNotFound_append us_up gs_up)
      show "onProgress \<Longrightarrow> progressValues E = [10, 60, 100]"
        unfolding E completes(1,2,3) by (simp add: progressValues_append us_up gs_up)
      show "transcriberFails e (trace w) E \<Longrightarrow> transcript ?result = Some []"
        using gs_fail unfolding E completes(1,2,3)
        by (cases onProgress) (simp_all add: transcriberFails_append)
    qed simp_all
  qed
qed

section \<open>The chain of attempts\<close>

lemma addPendingUpload_fields:
  "trace (addPendingUpload e sid b w) = trace w"
  "rm_pending_uploads (addPendingUpload e sid b w) =
     Some (getPendingUploads w @
       [\<lparr>sessionId = sid, audioBlob = b, retryCount = 0, lastAttempt = now e (trace w)\<rparr>])"
  "rm_audio_blobs (addPendingUpload e sid b w) = Some ((getAudioBlobs w)(sid \<mapsto> DataURL b))"
  by (simp_all add: addPendingUpload_def savePendingUploads_def saveAudioBlob_def
      getAudioBlobs_def readAsDataURL_def Let_def)

lemma emit_fields:
  "trace (emit ev w) = trace w @ [ev]"
  "rm_pending_uploads (emit ev w) = rm_pending_uploads w"
  "rm_audio_blobs (emit ev w) = rm_audio_blobs w"
  "rm_customers (emit ev w) = rm_customers w"
  "rm_chat_sessions (emit ev w) = rm_chat_sessions w"
  by (simp_all add: emit_def)

lemma attemptUpload_returns:
  "fst (attemptUpload_try e sid b onProgress w) = Inr result \<Longrightarrow>
   attemptUpload e sid b rc onProgress w = (result, snd (attemptUpload_try e sid b onProgress w))"
  by (subst attemptUpload.simps) (cases "attemptUpload_try e sid b onProgress w", simp)

lemma attemptUpload_bucket:
  "fst (attemptUpload_try e sid b onProgress w) = Inl err \<Longrightarrow> isBucketNotFound err \<Longrightarrow>
   attemptUpload e sid b rc onProgress w =
     (bucketNotFoundOutcome e, snd (attemptUpload_try e sid b onProgress w))"
  by (subst attemptUpload.simps)
     (cases "attemptUpload_try e sid b onProgress w",
      simp add: isBucketNotFound_def bucketNotFoundOutcome_def Let_def)

lemma attemptUpload_retry:
  "fst (attemptUpload_try e sid b onProgress w) = Inl err \<Longrightarrow> \<not> isBucketNotFound err \<Longrightarrow>
   rc < maxRetries \<Longrightarrow>
   attemptUpload e sid b rc onProgress w =
     attemptUpload e sid b (rc + 1) onProgress
       (emit (Sleep (retryDelay * (rc + 1))) (snd (attemptUpload_try e sid b onProgress w)))"
  by (subst attemptUpload.simps)
     (cases "attemptUpload_try e sid b onProgress w", simp add: isBucketNotFound_def Let_def)

lemma attemptUpload_exhausted:
  "fst (attemptUpload_try e sid b onProgress w) = Inl err \<Longrightarrow> \<not> isBucketNotFound err \<Longrightarrow>
   \<not> rc < maxRetries \<Longrightarrow>
   attemptUpload e sid b rc onProgress w =
     (\<lparr>success = False, transcript = None, audioUrl = None,
       error = Some (exhaustedMessage (errorMessageOf err))\<rparr>,
      addPendingUpload e sid b (snd (attemptUpload_try e sid b onProgress w)))"
  by (subst attemptUpload.simps)
     (cases "attemptUpload_try e sid b onProgress w", simp add: isBucketNotFound_def Let_def)

lemma attemptUpload_induct_retry [consumes 0, case_names attempt]:
  assumes step: "\<And>rc w.
     (\<And>err. fst (attemptUpload_try e sid b onProgress w) = Inl err \<Longrightarrow>
        \<not> isBucketNotFound err \<Longrightarrow> rc < maxRetries \<Longrightarrow>
        P (rc + 1) (emit (Sleep (retryDelay * (rc + 1)))
                      (snd (attemptUpload_try e sid b onProgress w))))
     \<Longrightarrow> P rc w"
  shows "P rc w"
proof (induction "maxRetries - rc" arbitrary: rc w)
  case (0 rc w)
  show ?case by (rule step) (use 0 in simp)
next
  case (Suc n rc w)
  show ?case
  proof (rule step)
    fix err
    assume "fst (attemptUpload_try e sid b onProgress w) = Inl err"
      and "\<not> isBucketNotFound err" and "rc < maxRetries"
    with Suc.hyps(2) have "n = maxRetries - (rc + 1)" by simp
    then show "P (rc + 1) (emit (Sleep (retryDelay * (rc + 1)))
        (snd (attemptUpload_try e sid b onProgress w)))"
      by (rule Suc.hyps(1))
  qed
qed

lemma emitted_append: "trace w' = trace w @ evs \<Longrightarrow> emitted w w' = evs"
  by (simp add: emitted_def)

lemma emitted_trans:
  assumes "trace w1 = trace w @ xs" and "trace w2 = trace w1 @ emitted w1 w2"
  shows "trace w2 = trace w @ emitted w w2" and "emitted w w2 = xs @ emitted w1 w2"
proof -
  from assms have t: "trace w2 = trace w @ (xs @ emitted w1 w2)" by simp
  from emitted_append [OF t] show "emitted w w2 = xs @ emitted w1 w2" .
  with t show "trace w2 = trace w @ emitted w w2" by simp
qed

lemma emitted_same_trace: "trace w' = trace w1 \<Longrightarrow> emitted w w' = emitted w w1"
  by (simp add: emitted_def)

lemma attemptUpload_trace:
  "trace (snd (attemptUpload e sid b rc onProgress w)) =
     trace w @ emitted w (snd (attemptUpload e sid b rc onProgress w))"
proof (induction rc w rule: attemptUpload_induct_retry [where e = e and sid = sid and b = b
      and onProgress = onProgress])
  case (attempt rc w)
  let ?T = "attemptUpload_try e sid b onProgress w"
  note tt = try_common(1) [of e sid b onProgress w]
  show ?case
  proof (cases "fst ?T")
    case (Inr result)
    show ?thesis unfolding attemptUpload_returns [OF Inr] using tt by simp
  next
    case (Inl err)
    show ?thesis
    proof (cases "isBucketNotFound err")
      case True
      show ?thesis unfolding attemptUpload_bucket [OF Inl True] using tt by simp
    next
      case False
      show ?thesis
      proof (cases "rc < maxRetries")
        case True
        let ?w1 = "emit (Sleep (retryDelay * (rc + 1))) (snd ?T)"
        have t1: "trace ?w1 = trace w @ (emitted w (snd ?T) @ [Sleep (retryDelay * (rc + 1))])"
          by (subst emit_fields, subst tt) simp
        show ?thesis unfolding attemptUpload_retry [OF Inl False True]
          by (rule emitted_trans(1) [OF t1 attempt [OF Inl False True]])
      next
        case rcmax: False
        show ?thesis unfolding attemptUpload_exhausted [OF Inl False rcmax]
          using tt
          by (simp add: addPendingUpload_fields
              emitted_same_trace [OF addPendingUpload_fields(1)])
      qed
    qed
  qed
qed

text \<open>
  The four ways an attempt ends, each with the events the whole chain of attempts has
  emitted.
\<close>

lemma attemptUpload_cases [case_names returns bucket retry exhausted]:
  fixes e sid b rc onProgress w
  defines "T \<equiv> attemptUpload_try e sid b onProgress w"
  defines "A \<equiv> attemptUpload e sid b rc onProgress w"
  obtains
    (returns) result where "fst T = Inr result" "A = (result, snd T)"
      "emitted w (snd A) = emitted w (snd T)"
  | (bucket) err where "fst T = Inl err" "isBucketNotFound err"
      "A = (bucketNotFoundOutcome e, snd T)"
      "emitted w (snd A) = emitted w (snd T)"
  | (retry) err w1 where "fst T = Inl err" "\<not> isBucketNotFound err" "rc < maxRetries"
      "w1 = emit (Sleep (retryDelay * (rc + 1))) (snd T)"
      "trace w1 = trace w @ emitted w (snd T) @ [Sleep (retryDelay * (rc + 1))]"
      "A = attemptUpload e sid b (rc + 1) onProgress w1"
      "emitted w (snd A) =
         (emitted w (snd T) @ [Sleep (retryDelay * (rc + 1))]) @
         emitted w1 (snd (attemptUpload e sid b (rc + 1) onProgress w1))"
  | (exhausted) err where "fst T = Inl err" "\<not> isBucketNotFound err" "\<not> rc < maxRetries"
      "A = (\<lparr>success = False, transcript = None, audioUrl = None,
              error = Some (exhaustedMessage (errorMessageOf err))\<rparr>,
            addPendingUpload e sid b (snd T))"
      "emitted w (snd A) = emitted w (snd T)"
proof -
  note tt = try_common(1) [of e sid b onProgress w, folded T_def]
  show ?thesis
  proof (cases "fst T")
    case (Inr result)
    then show ?thesis
      by (intro returns [where result = result])
         (simp_all add: A_def T_def attemptUpload_returns)
  next
    case (Inl err)
    show ?thesis
    proof (cases "isBucketNotFound err")
      case True
      with Inl show ?thesis
        by (intro bucket [where err = err])
           (simp_all add: A_def T_def attemptUpload_bucket)
    next
      case False
      show ?thesis
      proof (cases "rc < maxRetries")
        case True
        let ?w1 = "emit (Sleep (retryDelay * (rc + 1))) (snd T)"
        have t1: "trace ?w1 = trace w @ (emitted w (snd T) @ [Sleep (retryDelay * (rc + 1))])"
          by (subst emit_fields, subst tt) simp
        have eq: "A = attemptUpload e sid b (rc + 1) onProgress ?w1"
          unfolding A_def T_def
          by (rule attemptUpload_retry [OF Inl [unfolded T_def] False True])
        have em: "emitted w (snd A) =
            (emitted w (snd T) @ [Sleep (retryDelay * (rc + 1))]) @
            emitted ?w1 (snd (attemptUpload e sid b (rc + 1) onProgress ?w1))"
          unfolding eq by (rule emitted_trans(2) [OF t1 attemptUpload_trace])
        show ?thesis
        proof (rule retry [where err = err and ?w1.0 = ?w1])
          show "trace ?w1 = trace w @ emitted w (snd T) @ [Sleep (retryDelay * (rc + 1))]"
            using t1 by simp
        qed (use Inl False True eq em in simp_all)
      next
        case rcmax: False
        with Inl False show ?thesis
          by (intro exhausted [where err = err])
             (simp_all add: A_def T_def attemptUpload_exhausted
                emitted_same_trace [OF addPendingUpload_fields(1)])
      qed
    qed
  qed
qed

lemma try_Inr:
  fixes e sid b onProgress w
  defines "T \<equiv> attemptUpload_try e sid b onProgress w"
  assumes "fst T = Inr result"
  shows "success result" and "error result = None"
    and "rm_pending_uploads (snd T) =
           Some (filter (\<lambda>u. sessionId u \<noteq> sid) (getPendingUploads w))"
    and "uploadAnswers e (trace w) (emitted w (snd T)) = [None]"
    and "\<not> throwsAfterTransfer e (trace w) (emitted w (snd T))"
    and "eventsAfterBucketNotFound e (trace w) (emitted w (snd T)) = None"
    and "onProgress \<Longrightarrow> progressValues (emitted w (snd T)) = [10, 60, 100]"
    and "transcriberFails e (trace w) (emitted w (snd T)) \<Longrightarrow> transcript result = Some []"
proof -
  have "success result \<and> error result = None \<and>
    rm_pending_uploads (snd T) =
      Some (filter (\<lambda>u. sessionId u \<noteq> sid) (getPendingUploads w)) \<and>
    uploadAnswers e (trace w) (emitted w (snd T)) = [None] \<and>
    \<not> throwsAfterTransfer e (trace w) (emitted w (snd T)) \<and>
    eventsAfterBucketNotFound e (trace w) (emitted w (snd T)) = None \<and>
    (onProgress \<longrightarrow> progressValues (emitted w (snd T)) = [10, 60, 100]) \<and>
    (transcriberFails e (trace w) (emitted w (snd T)) \<longrightarrow> transcript result = Some [])"
  proof (cases rule: try_classes [where e = e and sid = sid and b = b
        and onProgress = onProgress and w = w])
    case (returns r)
    from returns(1) assms(2) have "r = result" by (simp add: T_def)
    with returns show ?thesis by (simp add: T_def)
  next
    case (noTransfer err)
    with assms(2) show ?thesis by (simp add: T_def)
  next
    case (transferFails err)
    with assms(2) show ?thesis by (simp add: T_def)
  next
    case (throwsAfter err)
    with assms(2) show ?thesis by (simp add: T_def)
  qed
  then show "success result" and "error result = None"
    and "rm_pending_uploads (snd T) =
           Some (filter (\<lambda>u. sessionId u \<noteq> sid) (getPendingUploads w))"
    and "uploadAnswers e (trace w) (emitted w (snd T)) = [None]"
    and "\<not> throwsAfterTransfer e (trace w) (emitted w (snd T))"
    and "eventsAfterBucketNotFound e (trace w) (emitted w (snd T)) = None"
    and "onProgress \<Longrightarrow> progressValues (emitted w (snd T)) = [10, 60, 100]"
    and "transcriberFails e (trace w) (emitted w (snd T)) \<Longrightarrow> transcript result = Some []"
    by simp_all
qed

lemma try_Inl:
  fixes e sid b onProgress w
  defines "T \<equiv> attemptUpload_try e sid b onProgress w"
  assumes "fst T = Inl err"
  shows "rm_pending_uploads (snd T) = rm_pending_uploads w"
    and "None \<in> set (uploadAnswers e (trace w) (emitted w (snd T))) \<Longrightarrow>
         throwsAfterTransfer e (trace w) (emitted w (snd T))"
    and "eventsAfterBucketNotFound e (trace w) (emitted w (snd T)) = Some rest \<Longrightarrow>
         rest = [] \<and> isBucketNotFound err"
    and "None \<notin> set (uploadAnswers e (trace w) (emitted w (snd T))) \<Longrightarrow>
         progressValues (emitted w (snd T)) = (if onProgress then [10] else [])"
    and "\<not> onProgress \<Longrightarrow> \<not> storageCallsOk e (trace w) (emitted w (snd T))"
proof -
  have "rm_pending_uploads (snd T) = rm_pending_uploads w \<and>
    (None \<in> set (uploadAnswers e (trace w) (emitted w (snd T))) \<longrightarrow>
         throwsAfterTransfer e (trace w) (emitted w (snd T))) \<and>
    (eventsAfterBucketNotFound e (trace w) (emitted w (snd T)) = Some rest \<longrightarrow>
         rest = [] \<and> isBucketNotFound err) \<and>
    (None \<notin> set (uploadAnswers e (trace w) (emitted w (snd T))) \<longrightarrow>
         progressValues (emitted w (snd T)) = (if onProgress then [10] else [])) \<and>
    (\<not> onProgress \<longrightarrow> \<not> storageCallsOk e (trace w) (emitted w (snd T)))"
  proof (cases rule: try_classes [where e = e and sid = sid and b = b
        and onProgress = onProgress and w = w])
    case (returns r)
    with assms(2) show ?thesis by (simp add: T_def)
  next
    case (noTransfer err')
    then show ?thesis by (simp add: T_def)
  next
    case (transferFails err')
    from transferFails(1) assms(2) have "err' = err" by (simp add: T_def)
    with transferFails show ?thesis by (simp add: T_def split: if_splits)
  next
    case (throwsAfter err')
    then show ?thesis by (simp add: T_def)
  qed
  then show "rm_pending_uploads (snd T) = rm_pending_uploads w"
    and "None \<in> set (uploadAnswers e (trace w) (emitted w (snd T))) \<Longrightarrow>
         throwsAfterTransfer e (trace w) (emitted w (snd T))"
    and "eventsAfterBucketNotFound e (trace w) (emitted w (snd T)) = Some rest \<Longrightarrow>
         rest = [] \<and> isBucketNotFound err"
    and "None \<notin> set (uploadAnswers e (trace w) (emitted w (snd T))) \<Longrightarrow>
         progressValues (emitted w (snd T)) = (if onProgress then [10] else [])"
    and "\<not> onProgress \<Longrightarrow> \<not> storageCallsOk e (trace w) (emitted w (snd T))"
    by simp_all
qed

section \<open>What a call of the upload pipeline leaves behind\<close>

lemma isBucketNotFound_examples:
  "isBucketNotFound (ErrorWithMessage ''Bucket not found'')"
  "\<not> isBucketNotFound (ErrorWithMessage ''Failed to fetch'')"
  by code_simp+

lemma showNat_maxRetries: "showNat maxRetries = ''3''"
  by code_simp

lemma messages_differ:
  "exhaustedMessage m \<noteq> bucketNotFoundMessage e"
  "bucketNotFoundMessage e \<noteq> ''Supabase is not reachable. Recording saved for later upload.''"
  "''Supabase is not reachable. Recording saved for later upload.'' \<noteq> bucketNotFoundMessage e"
  by (simp_all add: exhaustedMessage_def bucketNotFoundMessage_def)

lemma getPendingUploads_cong:
  "rm_pending_uploads w' = rm_pending_uploads w \<Longrightarrow> getPendingUploads w' = getPendingUploads w"
  by (simp add: getPendingUploads_def)

lemma attemptUpload_success_store:
  "success (fst (attemptUpload e sid b rc onProgress w)) \<Longrightarrow>
     rm_pending_uploads (snd (attemptUpload e sid b rc onProgress w)) =
       Some (filter (\<lambda>u. sessionId u \<noteq> sid) (getPendingUploads w)) \<and>
     rm_audio_blobs (snd (attemptUpload e sid b rc onProgress w)) = rm_audio_blobs w"
proof (induction rc w rule: attemptUpload_induct_retry [where e = e and sid = sid and b = b
      and onProgress = onProgress])
  case (attempt rc w)
  note blobs = try_common(2) [where e = e and sid = sid and b = b and onProgress = onProgress and w = w]
  show ?case
  proof (cases rule: attemptUpload_cases [where e = e and sid = sid and b = b and rc = rc
        and onProgress = onProgress and w = w])
    case (returns result)
    from try_Inr(3) [OF returns(1)] blobs show ?thesis
      unfolding returns(2) by simp
  next
    case (bucket err)
    from attempt.prems show ?thesis
      unfolding bucket(3) by (simp add: bucketNotFoundOutcome_def)
  next
    case (retry err w1)
    have pend: "rm_pending_uploads w1 = rm_pending_uploads w"
      unfolding retry(4) by (simp add: emit_fields try_Inl(1) [OF retry(1)])
    have bl: "rm_audio_blobs w1 = rm_audio_blobs w"
      unfolding retry(4) by (simp add: emit_fields blobs)
    from attempt.prems have "success (fst (attemptUpload e sid b (rc + 1) onProgress w1))"
      unfolding retry(6) .
    from attempt.IH [OF retry(1) retry(2) retry(3), folded retry(4), OF this]
    show ?thesis unfolding retry(6) by (simp add: bl getPendingUploads_cong [OF pend])
  next
    case (exhausted err)
    from attempt.prems show ?thesis
      unfolding exhausted(4) by simp
  qed
qed

lemma attemptUpload_bucket_store:
  "fst (attemptUpload e sid b rc onProgress w) = bucketNotFoundOutcome e \<Longrightarrow>
     rm_pending_uploads (snd (attemptUpload e sid b rc onProgress w)) = rm_pending_uploads w \<and>
     rm_audio_blobs (snd (attemptUpload e sid b rc onProgress w)) = rm_audio_blobs w"
proof (induction rc w rule: attemptUpload_induct_retry [where e = e and sid = sid and b = b
      and onProgress = onProgress])
  case (attempt rc w)
  note blobs = try_common(2) [where e = e and sid = sid and b = b and onProgress = onProgress and w = w]
  show ?case
  proof (cases rule: attemptUpload_cases [where e = e and sid = sid and b = b and rc = rc
        and onProgress = onProgress and w = w])
    case (returns result)
    from attempt.prems try_Inr(1) [OF returns(1)] show ?thesis
      unfolding returns(2) by (simp add: bucketNotFoundOutcome_def)
  next
    case (bucket err)
    from try_Inl(1) [OF bucket(1)] blobs show ?thesis
      unfolding bucket(3) by simp
  next
    case (retry err w1)
    have pend: "rm_pending_uploads w1 = rm_pending_uploads w"
      unfolding retry(4) by (simp add: emit_fields try_Inl(1) [OF retry(1)])
    have bl: "rm_audio_blobs w1 = rm_audio_blobs w"
      unfolding retry(4) by (simp add: emit_fields blobs)
    from attempt.prems
    have "fst (attemptUpload e sid b (rc + 1) onProgress w1) = bucketNotFoundOutcome e"
      unfolding retry(6) .
    from attempt.IH [OF retry(1) retry(2) retry(3), folded retry(4), OF this]
    show ?thesis unfolding retry(6) by (simp add: bl pend)
  next
    case (exhausted err)
    from attempt.prems show ?thesis
      unfolding exhausted(4) by (simp add: bucketNotFoundOutcome_def messages_differ)
  qed
qed

lemma attemptUpload_short_circuit:
  "eventsAfterBucketNotFound e (trace w)
       (emitted w (snd (attemptUpload e sid b rc onProgress w))) = Some rest \<Longrightarrow>
     rest = [] \<and> fst (attemptUpload e sid b rc onProgress w) = bucketNotFoundOutcome e"
proof (induction rc w rule: attemptUpload_induct_retry [where e = e and sid = sid and b = b
      and onProgress = onProgress])
  case (attempt rc w)
  let ?E = "emitted w (snd (attemptUpload_try e sid b onProgress w))"
  show ?case
  proof (cases rule: attemptUpload_cases [where e = e and sid = sid and b = b and rc = rc
        and onProgress = onProgress and w = w])
    case (returns result)
    from attempt.prems try_Inr(6) [OF returns(1)] show ?thesis
      unfolding returns(3) by simp
  next
    case (bucket err)
    from attempt.prems have "eventsAfterBucketNotFound e (trace w) ?E = Some rest"
      unfolding bucket(4) .
    from try_Inl(3) [OF bucket(1) this] show ?thesis
      unfolding bucket(3) by simp
  next
    case (retry err w1)
    have none: "eventsAfterBucketNotFound e (trace w) ?E = None"
    proof (cases "eventsAfterBucketNotFound e (trace w) ?E")
      case (Some r)
      from try_Inl(3) [OF retry(1) Some] retry(2) show ?thesis by simp
    qed simp
    from attempt.prems
    have "eventsAfterBucketNotFound e (trace w1)
            (emitted w1 (snd (attemptUpload e sid b (rc + 1) onProgress w1))) = Some rest"
      unfolding retry(7) retry(5)
      by (simp add: eventsAfterBucketNotFound_append none)
    from attempt.IH [OF retry(1) retry(2) retry(3), folded retry(4), OF this]
    show ?thesis unfolding retry(6) .
  next
    case (exhausted err)
    from attempt.prems have "eventsAfterBucketNotFound e (trace w) ?E = Some rest"
      unfolding exhausted(5) .
    from try_Inl(3) [OF exhausted(1) this] exhausted(2) show ?thesis by simp
  qed
qed








lemma attemptUpload_storageCallsOk_success:
  "\<not> onProgress \<Longrightarrow>
   storageCallsOk e (trace w)
       (emitted w (snd (attemptUpload e sid b rc onProgress w))) \<Longrightarrow>
   success (fst (attemptUpload e sid b rc onProgress w))"
proof (cases rule: attemptUpload_cases [where e = e and sid = sid and b = b and rc = rc
        and onProgress = onProgress and w = w])
  case (returns result)
  from try_Inr(1) [OF returns(1)] show ?thesis
    unfolding returns(2) by simp
next
  case (bucket err)
  assume "\<not> onProgress" and "storageCallsOk e (trace w)
       (emitted w (snd (attemptUpload e sid b rc onProgress w)))"
  with try_Inl(5) [OF bucket(1)] show ?thesis
    unfolding bucket(4) by simp
next
  case (retry err w1)
  assume "\<not> onProgress" and "storageCallsOk e (trace w)
       (emitted w (snd (attemptUpload e sid b rc onProgress w)))"
  with try_Inl(5) [OF retry(1)] show ?thesis
    unfolding retry(7) by (simp add: storageCallsOk_append)
next
  case (exhausted err)
  assume "\<not> onProgress" and "storageCallsOk e (trace w)
       (emitted w (snd (attemptUpload e sid b rc onProgress w)))"
  with try_Inl(5) [OF exhausted(1)] show ?thesis
    unfolding exhausted(5) by simp
qed

section \<open>Evaluating the string tests and the concrete runs\<close>

lemma checkServerConnection_fields:
  "fst (checkServerConnection e w) = (storage_list e (trace w @ [StorageList]) = ListOk)"
  "snd (checkServerConnection e w) = emit StorageList w"
  by (simp_all add: checkServerConnection_def Let_def emit_fields split: list_response.splits)

lemma uploadAudio_connected:
  "storage_list e (trace w @ [StorageList]) = ListOk \<Longrightarrow>
   uploadAudio e sid b onProgress w =
     attemptUpload e sid b 0 onProgress (emit StorageList w)"
  by (simp add: uploadAudio_def checkServerConnection_def Let_def emit_fields)

lemma uploadAudio_not_connected:
  "storage_list e (trace w @ [StorageList]) \<noteq> ListOk \<Longrightarrow>
   uploadAudio e sid b onProgress w =
     (\<lparr>success = False, transcript = None, audioUrl = None,
       error = Some ''Supabase is not reachable. Recording saved for later upload.''\<rparr>,
      addPendingUpload e sid b (emit StorageList w))"
  by (simp add: uploadAudio_def checkServerConnection_def Let_def emit_fields
      split: list_response.splits)

lemmas run_defs = attemptUpload_try_def progress_def resolveUrl_def
  generateTranscriptWithGemini_def removePendingUpload_def addPendingUpload_def
  savePendingUploads_def saveAudioBlob_def readAsDataURL_def getAudioBlobs_def
  getPendingUploads_def emit_def Let_def errorMessageOf_def
  isBucketNotFound_examples maxRetries_def retryDelay_def
  bucketNotFoundOutcome_def trim_def isWhiteSpace_def

lemma exhaustedMessage_eval:
  "exhaustedMessage m = ''Upload failed after 3 attempts. Recording saved locally. '' @ m"
  by (simp add: exhaustedMessage_def showNat_maxRetries)

lemma isBucketNotFound_fetch [simp]:
  "includesJS (toLowerCase ''Failed to fetch'') ''bucket not found'' = False"
  "includesJS (toLowerCase ''Bucket not found'') ''bucket not found'' = True"
  using isBucketNotFound_examples by (simp_all add: isBucketNotFound_def errorMessageOf_def)



lemma uploadAudio_emitted_connected:
  assumes "storage_list e (trace w @ [StorageList]) = ListOk"
  shows "emitted w (snd (uploadAudio e sid b onProgress w)) =
           StorageList # emitted (emit StorageList w)
             (snd (attemptUpload e sid b 0 onProgress (emit StorageList w)))"
proof -
  have t: "trace (emit StorageList w) = trace w @ [StorageList]" by (simp add: emit_fields)
  from emitted_trans(2) [OF t attemptUpload_trace] show ?thesis
    unfolding uploadAudio_connected [OF assms] by simp
qed

lemma uploadAudio_emitted_not_connected:
  assumes "storage_list e (trace w @ [StorageList]) \<noteq> ListOk"
  shows "emitted w (snd (uploadAudio e sid b onProgress w)) = [StorageList]"
  unfolding uploadAudio_not_connected [OF assms]
  by (simp add: emitted_append addPendingUpload_fields emit_fields)

lemma uploadAudio_trace:
  "trace (snd (uploadAudio e sid b onProgress w)) =
     trace w @ emitted w (snd (uploadAudio e sid b onProgress w))"
proof (cases "storage_list e (trace w @ [StorageList]) = ListOk")
  case True
  have t: "trace (emit StorageList w) = trace w @ [StorageList]" by (simp add: emit_fields)
  from emitted_trans(1) [OF t attemptUpload_trace] show ?thesis
    unfolding uploadAudio_connected [OF True] .
next
  case False
  show ?thesis
    unfolding uploadAudio_not_connected [OF False]
    by (simp add: addPendingUpload_fields emit_fields emitted_def)
qed

lemma uploadAudio_success_store:
  assumes "success (fst (uploadAudio e sid b onProgress w))"
  shows "rm_pending_uploads (snd (uploadAudio e sid b onProgress w)) =
           Some (filter (\<lambda>u. sessionId u \<noteq> sid) (getPendingUploads w))"
    and "rm_audio_blobs (snd (uploadAudio e sid b onProgress w)) = rm_audio_blobs w"
proof -
  have conn: "storage_list e (trace w @ [StorageList]) = ListOk"
  proof (rule ccontr)
    assume "storage_list e (trace w @ [StorageList]) \<noteq> ListOk"
    from uploadAudio_not_connected [OF this] assms show False by simp
  qed
  from assms have "success (fst (attemptUpload e sid b 0 onProgress (emit StorageList w)))"
    by (simp add: uploadAudio_connected [OF conn])
  from attemptUpload_success_store [OF this]
  show "rm_pending_uploads (snd (uploadAudio e sid b onProgress w)) =
           Some (filter (\<lambda>u. sessionId u \<noteq> sid) (getPendingUploads w))"
    and "rm_audio_blobs (snd (uploadAudio e sid b onProgress w)) = rm_audio_blobs w"
    by (simp_all add: uploadAudio_connected [OF conn] getPendingUploads_def emit_fields)
qed

lemma envOk_run:
  "uploadAudio envOk ''s1'' blob0 True worldQueued =
     (\<lparr>success = True, transcript = Some ''hello'', audioUrl = Some ''https://store/recordings'',
       error = None\<rparr>,
      worldQueued\<lparr>rm_pending_uploads := Some [pendingOf ''s2''],
        trace := [StorageList, Progress 10,
         StorageUpload (filePathOf ''s1'') (fileOf blob0), Progress 60,
         GetPublicUrl (filePathOf ''s1''), GeminiFetch blob0, Progress 100]\<rparr>)"
proof -
  have conn: "storage_list envOk (trace worldQueued @ [StorageList]) = ListOk"
    by (simp add: envOk_def)
  show ?thesis
    apply (simp add: uploadAudio_connected [OF conn])
    apply (subst attemptUpload.simps)
    apply (simp add: run_defs worldQueued_def world0_def envOk_def pendingOf_def)
    done
qed

lemma envNoBucket_run:
  "uploadAudio envNoBucket ''s1'' blob0 True worldQueued =
     (bucketNotFoundOutcome envNoBucket,
      worldQueued\<lparr>trace := [StorageList, Progress 10,
         StorageUpload (filePathOf ''s1'') (fileOf blob0)]\<rparr>)"
proof -
  have conn: "storage_list envNoBucket (trace worldQueued @ [StorageList]) = ListOk"
    by (simp add: envNoBucket_def envOk_def)
  show ?thesis
    apply (simp add: uploadAudio_connected [OF conn])
    apply (subst attemptUpload.simps)
    apply (simp add: run_defs worldQueued_def world0_def envNoBucket_def envOk_def)
    done
qed

lemma envLateBucket_run:
  "uploadAudio envLateBucket ''s1'' blob0 True worldQueued =
     (bucketNotFoundOutcome envLateBucket,
      worldQueued\<lparr>trace := [StorageList, Progress 10,
         StorageUpload (filePathOf ''s1'') (fileOf blob0), Sleep 2000, Progress 10,
         StorageUpload (filePathOf ''s1'') (fileOf blob0)]\<rparr>)"
proof -
  have conn: "storage_list envLateBucket (trace worldQueued @ [StorageList]) = ListOk"
    by (simp add: envLateBucket_def envOk_def)
  show ?thesis
    apply (simp add: uploadAudio_connected [OF conn])
    apply (subst attemptUpload.simps)
    apply (simp add: run_defs worldQueued_def world0_def envLateBucket_def envOk_def)
    apply (subst attemptUpload.simps)
    apply (simp add: run_defs)
    done
qed


lemma envFailing_run:
  "uploadAudio envFailing ''s1'' blob0 True world0 =
     (\<lparr>success = False, transcript = None, audioUrl = None,
       error = Some ''Upload failed after 3 attempts. Recording saved locally. Failed to fetch''\<rparr>,
      world0\<lparr>rm_pending_uploads := Some [pendingOf ''s1''],
        rm_audio_blobs := Some [''s1'' \<mapsto> DataURL blob0],
        trace := [StorageList, Progress 10,
         StorageUpload (filePathOf ''s1'') (fileOf blob0), Sleep 2000, Progress 10,
         StorageUpload (filePathOf ''s1'') (fileOf blob0), Sleep 4000, Progress 10,
         StorageUpload (filePathOf ''s1'') (fileOf blob0), Sleep 6000, Progress 10,
         StorageUpload (filePathOf ''s1'') (fileOf blob0)]\<rparr>)"
proof -
  have conn: "storage_list envFailing (trace world0 @ [StorageList]) = ListOk"
    by (simp add: envFailing_def envOk_def)
  show ?thesis
    apply (simp add: uploadAudio_connected [OF conn])
    apply (subst attemptUpload.simps)
    apply (simp add: run_defs world0_def envFailing_def envOk_def)
    apply (subst attemptUpload.simps)
    apply (simp add: run_defs)
    apply (subst attemptUpload.simps)
    apply (simp add: run_defs)
    apply (subst attemptUpload.simps)
    apply (simp add: run_defs exhaustedMessage_eval pendingOf_def)
    done
qed

section \<open>The pending-upload queue\<close>

lemma pendingIds_addPendingUpload:
  "pendingIds (addPendingUpload e sid b w) = pendingIds w @ [sid]"
  by (simp add: pendingIds_def getPendingUploads_def addPendingUpload_fields)

lemma pendingIds_removePendingUpload:
  "pendingIds (removePendingUpload sid w) = filter (\<lambda>s. s \<noteq> sid) (pendingIds w)"
  by (simp add: pendingIds_def getPendingUploads_def removePendingUpload_fields filter_map o_def)

lemma applyOp_distinct:
  "distinct (pendingIds w) \<Longrightarrow> freshAdd op w \<Longrightarrow> distinct (pendingIds (applyOp e op w))"
  by (cases op) (simp_all add: pendingIds_addPendingUpload pendingIds_removePendingUpload)

lemma runOps_distinct:
  "distinct (pendingIds w) \<Longrightarrow> freshAdds e ops w \<Longrightarrow> distinct (pendingIds (runOps e ops w))"
  by (induction ops arbitrary: w) (simp_all add: applyOp_distinct)

text \<open>
  C1 (as the claim states it, refuted): from the empty queue, two calls of
  \<open>addPendingUpload\<close> for the session id \<open>s1\<close> leave two entries with that id in the
  queue: \<open>addPendingUpload\<close> pushes, it does not replace.
\<close>

theorem addPendingUpload_twice_duplicates:
  "length (filter (\<lambda>u. sessionId u = ''s1'')
     (getPendingUploads
        (runOps envOffline [AddPendingUpload ''s1'' blob0, AddPendingUpload ''s1'' blob0]
           world0))) = 2"
  by (simp add: getPendingUploads_def addPendingUpload_fields world0_def)

text \<open>
  C1 (amended): \<open>addPendingUpload\<close> appends one entry for its session id to the end of the
  queue and keeps every earlier entry, \<open>removePendingUpload\<close> removes every entry of its
  session id. So, starting from a queue with at most one entry per session id, every
  sequence of these two operations in which no \<open>addPendingUpload\<close> is applied to a session
  id that has an entry at that moment ends in a queue with at most one entry per session
  id.
\<close>

theorem pendingUploads_unique_when_adds_fresh:
  "pendingIds (addPendingUpload e sid b w) = pendingIds w @ [sid] \<and>
   pendingIds (removePendingUpload sid w) = filter (\<lambda>s. s \<noteq> sid) (pendingIds w) \<and>
   (distinct (pendingIds w) \<and> freshAdds e ops w \<longrightarrow> distinct (pendingIds (runOps e ops w)))"
  by (simp add: pendingIds_addPendingUpload pendingIds_removePendingUpload runOps_distinct)

theorem pendingUploads_unique_when_adds_fresh_witness:
  "distinct (pendingIds world0) \<and>
   freshAdds envOffline [AddPendingUpload ''s1'' blob0, RemovePendingUpload ''s1'',
      AddPendingUpload ''s1'' blob0, AddPendingUpload ''s2'' blob0] world0 \<and>
   pendingIds (runOps envOffline [AddPendingUpload ''s1'' blob0, RemovePendingUpload ''s1'',
      AddPendingUpload ''s1'' blob0, AddPendingUpload ''s2'' blob0] world0) = [''s1'', ''s2''] \<and>
   distinct (pendingIds (runOps envOffline [AddPendingUpload ''s1'' blob0,
      RemovePendingUpload ''s1'', AddPendingUpload ''s1'' blob0,
      AddPendingUpload ''s2'' blob0] world0))"
proof -
  let ?ops = "[AddPendingUpload ''s1'' blob0, RemovePendingUpload ''s1'',
      AddPendingUpload ''s1'' blob0, AddPendingUpload ''s2'' blob0]"
  have d: "distinct (pendingIds world0)"
    by (simp add: pendingIds_def getPendingUploads_def world0_def)
  have f: "freshAdds envOffline ?ops world0"
    by (simp add: pendingIds_addPendingUpload pendingIds_removePendingUpload)
       (simp add: pendingIds_def getPendingUploads_def world0_def)
  have r: "pendingIds (runOps envOffline ?ops world0) = [''s1'', ''s2'']"
    by (simp add: pendingIds_addPendingUpload pendingIds_removePendingUpload)
       (simp add: pendingIds_def getPendingUploads_def world0_def)
  from pendingUploads_unique_when_adds_fresh [of envOffline "''s1''" blob0 world0 ?ops] d f
  have "distinct (pendingIds (runOps envOffline ?ops world0))" by blast
  with d f r show ?thesis by blast
qed

section \<open>A successful upload clears the queue of its session\<close>

text \<open>
  C7: every \<open>uploadAudio\<close> call whose outcome has \<open>success = true\<close> leaves no entry for
  its session id in the pending-upload queue: the queue it leaves is the queue it found
  without the entries of that session id.
\<close>

theorem uploadAudio_success_removes_pending:
  "success (fst (uploadAudio e sid b onProgress w)) \<Longrightarrow>
   getPendingUploads (snd (uploadAudio e sid b onProgress w)) =
     filter (\<lambda>u. sessionId u \<noteq> sid) (getPendingUploads w) \<and>
   sid \<notin> set (pendingIds (snd (uploadAudio e sid b onProgress w)))"
  by (auto simp: uploadAudio_success_store getPendingUploads_def pendingIds_def)

theorem uploadAudio_success_removes_pending_witness:
  "success (fst (uploadAudio envOk ''s1'' blob0 True worldQueued)) \<and>
   getPendingUploads worldQueued = [pendingOf ''s1'', pendingOf ''s2''] \<and>
   getPendingUploads (snd (uploadAudio envOk ''s1'' blob0 True worldQueued)) = [pendingOf ''s2''] \<and>
   ''s1'' \<notin> set (pendingIds (snd (uploadAudio envOk ''s1'' blob0 True worldQueued)))"
proof -
  have s: "success (fst (uploadAudio envOk ''s1'' blob0 True worldQueued))"
    by (simp add: envOk_run)
  have q: "getPendingUploads worldQueued = [pendingOf ''s1'', pendingOf ''s2'']"
    by (simp add: getPendingUploads_def worldQueued_def world0_def)
  from uploadAudio_success_removes_pending [OF s] q s show ?thesis
    by (simp add: pendingOf_def)
qed

section \<open>The probe fails\<close>

text \<open>
  C3: when \<open>checkServerConnection\<close> fails, \<open>uploadAudio\<close> returns \<open>success = false\<close>
  with the message that the recording is saved for later upload, appends a pending
  upload with \<open>retryCount = 0\<close> for the session, and the probe is the only call it
  makes: no storage upload is attempted. This holds for every session id and every blob,
  the non-empty ones included.
\<close>

theorem uploadAudio_unreachable_enqueues:
  assumes "\<not> fst (checkServerConnection e w)"
  shows "fst (uploadAudio e sid b onProgress w) =
           \<lparr>success = False, transcript = None, audioUrl = None,
            error = Some ''Supabase is not reachable. Recording saved for later upload.''\<rparr> \<and>
         getPendingUploads (snd (uploadAudio e sid b onProgress w)) =
           getPendingUploads w @
             [\<lparr>sessionId = sid, audioBlob = b, retryCount = 0,
               lastAttempt = now e (trace w @ [StorageList])\<rparr>] \<and>
         emitted w (snd (uploadAudio e sid b onProgress w)) = [StorageList] \<and>
         filter isUpload (emitted w (snd (uploadAudio e sid b onProgress w))) = []"
proof -
  from assms have nc: "storage_list e (trace w @ [StorageList]) \<noteq> ListOk"
    by (simp add: checkServerConnection_fields)
  show ?thesis
    by (simp add: uploadAudio_not_connected [OF nc] getPendingUploads_def
        addPendingUpload_fields emit_fields getAudioBlob_def getAudioBlobs_def emitted_def)
qed

theorem uploadAudio_unreachable_enqueues_witness:
  "\<not> fst (checkServerConnection envOffline world0) \<and>
   fst (uploadAudio envOffline ''s1'' blob0 True world0) =
           \<lparr>success = False, transcript = None, audioUrl = None,
            error = Some ''Supabase is not reachable. Recording saved for later upload.''\<rparr> \<and>
   getPendingUploads (snd (uploadAudio envOffline ''s1'' blob0 True world0)) = [pendingOf ''s1''] \<and>
   emitted world0 (snd (uploadAudio envOffline ''s1'' blob0 True world0)) = [StorageList]"
proof -
  have h: "\<not> fst (checkServerConnection envOffline world0)"
    by (simp add: checkServerConnection_fields envOffline_def envOk_def)
  from uploadAudio_unreachable_enqueues [OF h, of "''s1''" blob0 True] h show ?thesis
    by (simp add: getPendingUploads_def world0_def pendingOf_def envOffline_def envOk_def)
qed

section \<open>The bucket is missing\<close>

lemma includesJS_prefix: "includesJS (t @ s) t"
proof (cases "t @ s")
  case Nil
  then show ?thesis by simp
next
  case (Cons a list)
  have "take (length t) (t @ s) = t" by simp
  then have "take (length t) (a # list) = t" unfolding Cons .
  then have "includesJS (a # list) t" by simp
  then show ?thesis unfolding Cons .
qed

lemma includesJS_append: "includesJS (p @ t @ s) t"
  by (induction p) (simp_all add: includesJS_prefix)

lemma bucketNotFoundMessage_names_bucket:
  "includesJS (bucketNotFoundMessage e) (STORAGE_BUCKET e)"
  unfolding bucketNotFoundMessage_def
  using includesJS_append [of "''Supabase bucket '' @ dquote" "STORAGE_BUCKET e"]
  by simp

lemma STORAGE_BUCKET_nonempty: "STORAGE_BUCKET e \<noteq> []"
  by (simp add: STORAGE_BUCKET_def split: option.splits)

lemma bucketNotFoundMessage_literal:
  "bucketNotFoundMessage e =
     ''Supabase bucket '' @ [CHR 0x22] @ STORAGE_BUCKET e @ [CHR 0x22] @
     '' not found. Create this bucket in Supabase Storage (Dashboard '' @
     [CHR 0xE2, CHR 0x86, CHR 0x92] @ '' Storage '' @ [CHR 0xE2, CHR 0x86, CHR 0x92] @
     '' New bucket) and set its public access or adjust policies.''"
  by (simp add: bucketNotFoundMessage_def dquote_def arrow_def)

text \<open>
  C5: if some storage upload of an \<open>uploadAudio\<close> call is answered with an error whose
  lower-cased message contains \<open>bucket not found\<close>, then nothing follows that upload
  call (no sleep, no further attempt, no other call) and the outcome is
  \<open>success = false\<close> with the configuration message of the source, character by
  character, which contains the name of the bucket, a string that is not empty.
\<close>

theorem uploadAudio_bucket_not_found_short_circuits:
  assumes "eventsAfterBucketNotFound e (trace w)
             (emitted w (snd (uploadAudio e sid b onProgress w))) = Some rest"
  shows "rest = [] \<and>
         fst (uploadAudio e sid b onProgress w) =
           \<lparr>success = False, transcript = None, audioUrl = None,
            error = Some (''Supabase bucket '' @ [CHR 0x22] @ STORAGE_BUCKET e @ [CHR 0x22] @
              '' not found. Create this bucket in Supabase Storage (Dashboard '' @
              [CHR 0xE2, CHR 0x86, CHR 0x92] @ '' Storage '' @ [CHR 0xE2, CHR 0x86, CHR 0x92] @
              '' New bucket) and set its public access or adjust policies.'')\<rparr> \<and>
         includesJS (the (error (fst (uploadAudio e sid b onProgress w)))) (STORAGE_BUCKET e) \<and>
         STORAGE_BUCKET e \<noteq> []"
proof (cases "storage_list e (trace w @ [StorageList]) = ListOk")
  case True
  let ?w1 = "emit StorageList w"
  note eq = uploadAudio_connected [OF True, of sid b onProgress]
  from assms have "eventsAfterBucketNotFound e (trace ?w1)
      (emitted ?w1 (snd (attemptUpload e sid b 0 onProgress ?w1))) = Some rest"
    unfolding uploadAudio_emitted_connected [OF True] by (simp add: emit_fields)
  from attemptUpload_short_circuit [OF this]
  have r: "rest = []" and o: "fst (uploadAudio e sid b onProgress w) = bucketNotFoundOutcome e"
    unfolding eq by simp_all
  from bucketNotFoundMessage_names_bucket [of e]
  have "includesJS (the (error (fst (uploadAudio e sid b onProgress w)))) (STORAGE_BUCKET e)"
    unfolding o by (simp add: bucketNotFoundOutcome_def)
  with r o show ?thesis
    by (simp add: bucketNotFoundOutcome_def bucketNotFoundMessage_literal
        STORAGE_BUCKET_nonempty)
next
  case False
  from assms show ?thesis
    unfolding uploadAudio_emitted_not_connected [OF False] by simp
qed

theorem uploadAudio_bucket_not_found_short_circuits_witness:
  "eventsAfterBucketNotFound envLateBucket (trace worldQueued)
     (emitted worldQueued (snd (uploadAudio envLateBucket ''s1'' blob0 True worldQueued))) = Some [] \<and>
   emitted worldQueued (snd (uploadAudio envLateBucket ''s1'' blob0 True worldQueued)) =
     [StorageList, Progress 10, StorageUpload (filePathOf ''s1'') (fileOf blob0), Sleep 2000,
      Progress 10, StorageUpload (filePathOf ''s1'') (fileOf blob0)] \<and>
   fst (uploadAudio envLateBucket ''s1'' blob0 True worldQueued) =
     \<lparr>success = False, transcript = None, audioUrl = None,
      error = Some (''Supabase bucket '' @ [CHR 0x22] @ ''recordings'' @ [CHR 0x22] @
        '' not found. Create this bucket in Supabase Storage (Dashboard '' @
        [CHR 0xE2, CHR 0x86, CHR 0x92] @ '' Storage '' @ [CHR 0xE2, CHR 0x86, CHR 0x92] @
        '' New bucket) and set its public access or adjust policies.'')\<rparr> \<and>
   includesJS (the (error (fst (uploadAudio envLateBucket ''s1'' blob0 True worldQueued))))
     ''recordings''"
proof -
  have em: "emitted worldQueued (snd (uploadAudio envLateBucket ''s1'' blob0 True worldQueued)) =
     [StorageList, Progress 10, StorageUpload (filePathOf ''s1'') (fileOf blob0), Sleep 2000,
      Progress 10, StorageUpload (filePathOf ''s1'') (fileOf blob0)]"
    unfolding envLateBucket_run emitted_def by (simp add: worldQueued_def world0_def)
  have h: "eventsAfterBucketNotFound envLateBucket (trace worldQueued)
     (emitted worldQueued (snd (uploadAudio envLateBucket ''s1'' blob0 True worldQueued))) = Some []"
    unfolding em
    by (simp add: worldQueued_def world0_def envLateBucket_def envOk_def
        isBucketNotFound_examples)
  have bk: "STORAGE_BUCKET envLateBucket = ''recordings''"
    by (simp add: STORAGE_BUCKET_def envLateBucket_def envOk_def)
  from uploadAudio_bucket_not_found_short_circuits [OF h] h em show ?thesis
    unfolding bk by simp
qed

text \<open>
  C10: when \<open>uploadAudio\<close> returns the bucket-not-found outcome, the pending-upload
  queue and the cached audio blobs are what they were before the call: nothing is
  enqueued and nothing is cached on this path.
\<close>

theorem uploadAudio_bucket_not_found_leaves_cache:
  assumes "fst (uploadAudio e sid b onProgress w) = bucketNotFoundOutcome e"
  shows "rm_pending_uploads (snd (uploadAudio e sid b onProgress w)) = rm_pending_uploads w \<and>
         rm_audio_blobs (snd (uploadAudio e sid b onProgress w)) = rm_audio_blobs w \<and>
         getPendingUploads (snd (uploadAudio e sid b onProgress w)) = getPendingUploads w"
proof -
  have conn: "storage_list e (trace w @ [StorageList]) = ListOk"
  proof (rule ccontr)
    assume "storage_list e (trace w @ [StorageList]) \<noteq> ListOk"
    from uploadAudio_not_connected [OF this] assms show False
      by (simp add: bucketNotFoundOutcome_def messages_differ)
  qed
  from assms have "fst (attemptUpload e sid b 0 onProgress (emit StorageList w)) =
      bucketNotFoundOutcome e"
    by (simp add: uploadAudio_connected [OF conn])
  from attemptUpload_bucket_store [OF this] show ?thesis
    by (simp add: uploadAudio_connected [OF conn] emit_fields getPendingUploads_def)
qed

theorem uploadAudio_bucket_not_found_leaves_cache_witness:
  "fst (uploadAudio envNoBucket ''s1'' blob0 True worldQueued) = bucketNotFoundOutcome envNoBucket \<and>
   rm_pending_uploads (snd (uploadAudio envNoBucket ''s1'' blob0 True worldQueued)) =
     Some [pendingOf ''s1'', pendingOf ''s2''] \<and>
   rm_audio_blobs (snd (uploadAudio envNoBucket ''s1'' blob0 True worldQueued)) =
     Some [''s1'' \<mapsto> DataURL blob0, ''s2'' \<mapsto> DataURL blob0]"
proof -
  have h: "fst (uploadAudio envNoBucket ''s1'' blob0 True worldQueued) =
      bucketNotFoundOutcome envNoBucket"
    by (simp add: envNoBucket_run)
  from uploadAudio_bucket_not_found_leaves_cache [OF h] h show ?thesis
    by (simp add: worldQueued_def world0_def)
qed

section \<open>Transfer and transcription\<close>




section \<open>Progress reports\<close>




section \<open>The retry budget\<close>

lemma attemptUpload_try_upload_fails:
  assumes "onProgress \<Longrightarrow> on_progress e (trace w @ [Progress 10]) = None"
    and "storage_upload e (trace w @ (if onProgress then [Progress 10] else []) @
           [StorageUpload (filePathOf sid) (fileOf b)]) = Some err"
  shows "attemptUpload_try e sid b onProgress w =
           (Inl err, emitAll w ((if onProgress then [Progress 10] else []) @
              [StorageUpload (filePathOf sid) (fileOf b)]))"
  using assms
  by (cases onProgress) (simp_all add: attemptUpload_try_def progress_def Let_def emit_def emitAll_def)

text \<open>
  When the probe succeeds, the progress callback returns and every storage upload is
  answered with an error that is not the bucket-not-found error, \<open>uploadAudio\<close> makes
  four upload calls, sleeps 2000, 4000 and 6000 ms between them, appends a pending
  upload with the blob, caches the blob, and returns \<open>success = false\<close> with the message
  of the budget's exhaustion, which reads \<open>3 attempts\<close>.
\<close>

lemma uploadAudio_retry_exhaustion:
  assumes conn: "storage_list e (trace w @ [StorageList]) = ListOk"
    and cb: "\<And>h. on_progress e h = None"
    and fail: "\<And>h. \<exists>err. storage_upload e h = Some err \<and> \<not> isBucketNotFound err"
  shows "\<exists>err.
    fst (uploadAudio e sid b onProgress w) =
      \<lparr>success = False, transcript = None, audioUrl = None,
       error = Some (''Upload failed after 3 attempts. Recording saved locally. '' @
                     errorMessageOf err)\<rparr> \<and>
    emitted w (snd (uploadAudio e sid b onProgress w)) =
      (let pre = (if onProgress then [Progress 10] else []) @
                 [StorageUpload (filePathOf sid) (fileOf b)]
       in [StorageList] @ pre @ [Sleep 2000] @ pre @ [Sleep 4000] @ pre @ [Sleep 6000] @ pre) \<and>
    getPendingUploads (snd (uploadAudio e sid b onProgress w)) =
      getPendingUploads w @
        [\<lparr>sessionId = sid, audioBlob = b, retryCount = 0,
          lastAttempt = now e (trace (snd (uploadAudio e sid b onProgress w)))\<rparr>] \<and>
    getAudioBlob sid (snd (uploadAudio e sid b onProgress w)) = Some b"
proof -
  let ?pre = "(if onProgress then [Progress 10] else []) @
              [StorageUpload (filePathOf sid) (fileOf b)]"
  let ?w0 = "emit StorageList w"
  let ?u0 = "emitAll ?w0 ?pre"
  let ?w1 = "emit (Sleep (retryDelay * (0 + 1))) ?u0"
  let ?u1 = "emitAll ?w1 ?pre"
  let ?w2 = "emit (Sleep (retryDelay * (0 + 1 + 1))) ?u1"
  let ?u2 = "emitAll ?w2 ?pre"
  let ?w3 = "emit (Sleep (retryDelay * (0 + 1 + 1 + 1))) ?u2"
  let ?u3 = "emitAll ?w3 ?pre"
  from fail obtain e0 where e0: "storage_upload e (trace ?w0 @ ?pre) = Some e0" "\<not> isBucketNotFound e0"
    by blast
  from fail obtain e1 where e1: "storage_upload e (trace ?w1 @ ?pre) = Some e1" "\<not> isBucketNotFound e1"
    by blast
  from fail obtain e2 where e2: "storage_upload e (trace ?w2 @ ?pre) = Some e2" "\<not> isBucketNotFound e2"
    by blast
  from fail obtain e3 where e3: "storage_upload e (trace ?w3 @ ?pre) = Some e3" "\<not> isBucketNotFound e3"
    by blast
  note t0 = attemptUpload_try_upload_fails [OF cb e0(1)]
  note t1 = attemptUpload_try_upload_fails [OF cb e1(1)]
  note t2 = attemptUpload_try_upload_fails [OF cb e2(1)]
  note t3 = attemptUpload_try_upload_fails [OF cb e3(1)]
  have s0: "attemptUpload e sid b 0 onProgress ?w0 = attemptUpload e sid b (0 + 1) onProgress ?w1"
    using attemptUpload_retry [of e sid b onProgress ?w0 e0 0] e0(2)
    unfolding t0 by (simp add: maxRetries_def)
  have s1: "attemptUpload e sid b (0 + 1) onProgress ?w1 =
            attemptUpload e sid b (0 + 1 + 1) onProgress ?w2"
    using attemptUpload_retry [of e sid b onProgress ?w1 e1 "0 + 1"] e1(2)
    unfolding t1 by (simp add: maxRetries_def)
  have s2: "attemptUpload e sid b (0 + 1 + 1) onProgress ?w2 =
            attemptUpload e sid b (0 + 1 + 1 + 1) onProgress ?w3"
    using attemptUpload_retry [of e sid b onProgress ?w2 e2 "0 + 1 + 1"] e2(2)
    unfolding t2 by (simp add: maxRetries_def)
  have s3: "attemptUpload e sid b (0 + 1 + 1 + 1) onProgress ?w3 =
     (\<lparr>success = False, transcript = None, audioUrl = None,
       error = Some (exhaustedMessage (errorMessageOf e3))\<rparr>,
      addPendingUpload e sid b ?u3)"
    using attemptUpload_exhausted [of e sid b onProgress ?w3 e3 "0 + 1 + 1 + 1"] e3(2)
    unfolding t3 by (simp add: maxRetries_def)
  define u3 where "u3 = ?u3"
  have run: "uploadAudio e sid b onProgress w =
     (\<lparr>success = False, transcript = None, audioUrl = None,
       error = Some (exhaustedMessage (errorMessageOf e3))\<rparr>,
      addPendingUpload e sid b u3)"
    unfolding uploadAudio_connected [OF conn] s0 s1 s2 s3 u3_def ..
  have tr: "trace u3 = trace w @ [StorageList] @ ?pre @ [Sleep 2000] @ ?pre @ [Sleep 4000] @
      ?pre @ [Sleep 6000] @ ?pre"
    unfolding u3_def by (simp add: emitAll_fields emit_fields retryDelay_def)
  have st: "rm_pending_uploads u3 = rm_pending_uploads w" "rm_audio_blobs u3 = rm_audio_blobs w"
    unfolding u3_def by (simp_all add: emitAll_fields emit_fields)
  show ?thesis
    unfolding run
    by (rule exI [of _ e3])
       (simp add: exhaustedMessage_eval tr st emitted_def addPendingUpload_fields
          getPendingUploads_def getAudioBlob_def getAudioBlobs_def Let_def)
qed

text \<open>
  C4 (evaluated): with every transfer failing with \<open>Failed to fetch\<close>, \<open>uploadAudio\<close> makes
  four upload calls (one initial, three retries after 2000, 4000 and 6000 ms), enqueues
  the pending upload with the blob and returns \<open>success = false\<close>; the message it returns
  says \<open>after 3 attempts\<close>, the value of \<open>maxRetries\<close>, not the four attempts made.
\<close>

theorem uploadAudio_exhaustion_reports_three_attempts:
  "emitted world0 (snd (uploadAudio envFailing ''s1'' blob0 True world0)) =
     [StorageList, Progress 10,
      StorageUpload (filePathOf ''s1'') (fileOf blob0), Sleep 2000, Progress 10,
      StorageUpload (filePathOf ''s1'') (fileOf blob0), Sleep 4000, Progress 10,
      StorageUpload (filePathOf ''s1'') (fileOf blob0), Sleep 6000, Progress 10,
      StorageUpload (filePathOf ''s1'') (fileOf blob0)] \<and>
   length (filter isUpload (emitted world0 (snd (uploadAudio envFailing ''s1'' blob0 True world0)))) = 4 \<and>
   getPendingUploads (snd (uploadAudio envFailing ''s1'' blob0 True world0)) =
     [\<lparr>sessionId = ''s1'', audioBlob = blob0, retryCount = 0,
       lastAttempt = ''2024-01-01T00:00:00.000Z''\<rparr>] \<and>
   fst (uploadAudio envFailing ''s1'' blob0 True world0) =
     \<lparr>success = False, transcript = None, audioUrl = None,
      error = Some ''Upload failed after 3 attempts. Recording saved locally. Failed to fetch''\<rparr>"
  unfolding envFailing_run emitted_def
  by (simp add: world0_def getPendingUploads_def pendingOf_def)

section \<open>The reconciliation pass\<close>

lemma storageCallsOk_always:
  "\<forall>h. storage_list e h = ListOk \<Longrightarrow> \<forall>h. storage_upload e h = None \<Longrightarrow>
   \<forall>h. signed_url e h = SignedError \<Longrightarrow>
   storageCallsOk e h evs"
  by (induction evs arbitrary: h) (simp_all split: event.splits)

lemma retryStatus_fields:
  "trace (retryStatus onProgress sid st w) =
     trace w @ (if onProgress then [RetryStatus sid st] else [])"
  "rm_pending_uploads (retryStatus onProgress sid st w) = rm_pending_uploads w"
  "rm_audio_blobs (retryStatus onProgress sid st w) = rm_audio_blobs w"
  by (simp_all add: retryStatus_def emit_fields)

lemma uploadAudio_storageCallsOk_success:
  assumes "storageCallsOk e (trace w) (emitted w (snd (uploadAudio e sid b False w)))"
  shows "success (fst (uploadAudio e sid b False w))"
proof (cases "storage_list e (trace w @ [StorageList]) = ListOk")
  case True
  let ?w1 = "emit StorageList w"
  have t1: "trace ?w1 = trace w @ [StorageList]" by (simp add: emit_fields)
  from assms have "storageCallsOk e (trace ?w1)
      (emitted ?w1 (snd (attemptUpload e sid b 0 False ?w1)))"
    unfolding uploadAudio_emitted_connected [OF True] t1 by simp
  from attemptUpload_storageCallsOk_success [OF _ this] show ?thesis
    unfolding uploadAudio_connected [OF True] by simp
next
  case False
  with assms show ?thesis
    unfolding uploadAudio_emitted_not_connected [OF False] by simp
qed

lemma retryLoop_trace:
  "\<exists>evs. trace (retryLoop e onProgress ps w) = trace w @ evs"
proof (induction ps arbitrary: w)
  case Nil
  show ?case by simp
next
  case (Cons u rest)
  let ?w1 = "retryStatus onProgress (sessionId u) ''retrying'' w"
  show ?case
  proof (cases "getAudioBlob (sessionId u) ?w1")
    case None
    with Cons [of ?w1] show ?thesis by (auto simp: retryStatus_fields)
  next
    case (Some blob)
    let ?r = "uploadAudio e (sessionId u) blob False ?w1"
    let ?w3 = "if success (fst ?r)
               then retryStatus onProgress (sessionId u) ''success'' (snd ?r)
               else retryStatus onProgress (sessionId u) ''failed'' (snd ?r)"
    obtain evs2 where e2: "trace (snd ?r) = trace ?w1 @ evs2"
      using uploadAudio_trace by blast
    obtain evs4 where e4: "trace (retryLoop e onProgress rest ?w3) = trace ?w3 @ evs4"
      using Cons by blast
    have "retryLoop e onProgress (u # rest) w = retryLoop e onProgress rest ?w3"
      using Some by (simp add: Let_def case_prod_beta)
    with e2 e4 show ?thesis by (auto simp: retryStatus_fields)
  qed
qed

lemma retryLoop_all_ok:
  assumes "storageCallsOk e (trace w) (emitted w (retryLoop e onProgress ps w))"
    and "\<forall>u \<in> set ps. getAudioBlob (sessionId u) w \<noteq> None"
  shows "rm_audio_blobs (retryLoop e onProgress ps w) = rm_audio_blobs w \<and>
         getPendingUploads (retryLoop e onProgress ps w) =
           filter (\<lambda>u. sessionId u \<notin> sessionId ` set ps) (getPendingUploads w)"
  using assms
proof (induction ps arbitrary: w)
  case Nil
  show ?case by simp
next
  case (Cons u rest)
  let ?sid = "sessionId u"
  let ?w1 = "retryStatus onProgress ?sid ''retrying'' w"
  let ?s1 = "if onProgress then [RetryStatus ?sid ''retrying''] else []"
  have t1: "trace ?w1 = trace w @ ?s1" by (simp add: retryStatus_fields)
  from Cons.prems(2) obtain blob where blob: "getAudioBlob ?sid ?w1 = Some blob"
    by (auto simp: getAudioBlob_def getAudioBlobs_def retryStatus_fields)
  let ?r = "uploadAudio e ?sid blob False ?w1"
  let ?w3 = "if success (fst ?r)
             then retryStatus onProgress ?sid ''success'' (snd ?r)
             else retryStatus onProgress ?sid ''failed'' (snd ?r)"
  have loop: "retryLoop e onProgress (u # rest) w = retryLoop e onProgress rest ?w3"
    using blob by (simp add: Let_def case_prod_beta)
  obtain evs2 where e2: "trace (snd ?r) = trace ?w1 @ evs2"
    using uploadAudio_trace [of e ?sid blob False ?w1] by auto
  have "\<exists>s3. trace ?w3 = trace (snd ?r) @ s3"
    by (simp add: retryStatus_fields)
  then obtain s3 where e3: "trace ?w3 = trace (snd ?r) @ s3" ..
  obtain evs4 where e4: "trace (retryLoop e onProgress rest ?w3) = trace ?w3 @ evs4"
    using retryLoop_trace by blast
  have em: "emitted w (retryLoop e onProgress (u # rest) w) = ?s1 @ evs2 @ s3 @ evs4"
    unfolding loop emitted_def using e4 e3 e2 t1 by simp
  from Cons.prems(1) have ok2: "storageCallsOk e (trace ?w1) evs2"
    and ok4: "storageCallsOk e (trace ?w3) evs4"
    unfolding em storageCallsOk_append using e3 e2 t1 by simp_all
  have "emitted ?w1 (snd ?r) = evs2" using e2 by (simp add: emitted_def)
  with ok2 have succ: "success (fst ?r)"
    using uploadAudio_storageCallsOk_success [of e ?w1 ?sid blob] by simp
  note store = uploadAudio_success_store [OF succ]
  have blobs3: "rm_audio_blobs ?w3 = rm_audio_blobs w"
    using store(2) succ by (simp add: retryStatus_fields)
  have pend3: "getPendingUploads ?w3 = filter (\<lambda>v. sessionId v \<noteq> ?sid) (getPendingUploads w)"
    using store(1) succ by (simp add: retryStatus_fields getPendingUploads_def)
  have "emitted ?w3 (retryLoop e onProgress rest ?w3) = evs4" using e4 by (simp add: emitted_def)
  with ok4 have p1: "storageCallsOk e (trace ?w3) (emitted ?w3 (retryLoop e onProgress rest ?w3))"
    by simp
  have p2: "\<forall>v \<in> set rest. getAudioBlob (sessionId v) ?w3 \<noteq> None"
    using Cons.prems(2) blobs3 by (simp add: getAudioBlob_def getAudioBlobs_def)
  from Cons.IH [OF p1 p2] blobs3 pend3 show ?case
    unfolding loop by (auto intro: filter_cong)
qed

text \<open>
  C8: if the audio blob of every queued entry is in the local cache and every awaited
  storage call made during the pass succeeds (each bucket listing and each upload is
  answered without error, \<open>createSignedUrl\<close> does not reject), then the pending-upload
  queue is empty after \<open>retryPendingUploads\<close>, whatever its length was.
\<close>

theorem retryPendingUploads_all_ok_empties_queue:
  assumes "storageCallsOk e (trace w) (emitted w (retryPendingUploads e onProgress w))"
    and "\<forall>u \<in> set (getPendingUploads w). getAudioBlob (sessionId u) w \<noteq> None"
  shows "getPendingUploads (retryPendingUploads e onProgress w) = []"
proof -
  from assms have "getPendingUploads (retryLoop e onProgress (getPendingUploads w) w) =
      filter (\<lambda>u. sessionId u \<notin> sessionId ` set (getPendingUploads w)) (getPendingUploads w)"
    using retryLoop_all_ok [of e w onProgress "getPendingUploads w"]
    by (simp add: retryPendingUploads_def)
  then show ?thesis by (simp add: retryPendingUploads_def)
qed

theorem retryPendingUploads_all_ok_empties_queue_witness:
  "storageCallsOk envOk (trace worldQueued)
     (emitted worldQueued (retryPendingUploads envOk True worldQueued)) \<and>
   getPendingUploads worldQueued = [pendingOf ''s1'', pendingOf ''s2''] \<and>
   getAudioBlob ''s1'' worldQueued = Some blob0 \<and>
   getAudioBlob ''s2'' worldQueued = Some blob0 \<and>
   getPendingUploads (retryPendingUploads envOk True worldQueued) = []"
proof -
  have ok: "storageCallsOk envOk (trace worldQueued)
     (emitted worldQueued (retryPendingUploads envOk True worldQueued))"
    by (rule storageCallsOk_always) (simp_all add: envOk_def)
  have q: "getPendingUploads worldQueued = [pendingOf ''s1'', pendingOf ''s2'']"
    by (simp add: getPendingUploads_def worldQueued_def world0_def)
  have b: "getAudioBlob ''s1'' worldQueued = Some blob0" "getAudioBlob ''s2'' worldQueued = Some blob0"
    by (simp_all add: getAudioBlob_def getAudioBlobs_def worldQueued_def world0_def)
  have "\<forall>u \<in> set (getPendingUploads worldQueued). getAudioBlob (sessionId u) worldQueued \<noteq> None"
    using b by (simp add: q pendingOf_def)
  from retryPendingUploads_all_ok_empties_queue [OF ok this] ok q b show ?thesis by simp
qed

section \<open>Deleting a customer\<close>

lemma fold_deleteAudioBlob_filtered:
  "\<forall>s \<in> set ss. customerId s \<noteq> cid \<Longrightarrow>
   fold (\<lambda>session w. if customerId session = cid
                      then deleteAudioBlob (session_id session) w else w) ss w = w"
  by (induction ss arbitrary: w) simp_all

lemma handleDeleteCustomer_keeps_blobs:
  "rm_audio_blobs (snd (handleDeleteCustomer e confirmed cid (st, w))) = rm_audio_blobs w"
  by (simp add: handleDeleteCustomer_def Let_def fold_deleteAudioBlob_filtered saveSessions_def
      saveCustomers_def emit_def split: option.splits)

lemma handleDeleteCustomer_part_002_keeps_blobs:
  "rm_audio_blobs (snd (handleDeleteCustomer_part_002 e confirmed cid (st, w))) = rm_audio_blobs w"
  by (simp add: handleDeleteCustomer_part_002_def Let_def fold_deleteAudioBlob_filtered
      saveSessions_def saveCustomers_def emit_def split: option.splits)

text \<open>
  C2 (evaluated): deleting customer \<open>c1\<close>, who has the two sessions \<open>s1\<close> and \<open>s2\<close> with
  cached audio. The handler of part_003 deletes the remote sessions, then the remote
  customer, and drops the sessions from the state and from the local session list; the
  two audio blobs are still in the local cache afterwards, since the loop that deletes
  blobs runs over the sessions that are left. The handler of part_002 issues the two
  remote deletes in the other order.
\<close>

theorem handleDeleteCustomer_keeps_audio_blobs:
  "emitted worldTwoBlobs (snd (handleDeleteCustomer envOk True ''c1'' (appTwoSessions, worldTwoBlobs))) =
     [DbDeleteSessionsByCustomer ''c1'', DbDeleteCustomer ''c1''] \<and>
   sessions (fst (handleDeleteCustomer envOk True ''c1'' (appTwoSessions, worldTwoBlobs))) = [] \<and>
   getSessions (snd (handleDeleteCustomer envOk True ''c1'' (appTwoSessions, worldTwoBlobs))) = [] \<and>
   getAudioBlob ''s1'' (snd (handleDeleteCustomer envOk True ''c1'' (appTwoSessions, worldTwoBlobs))) =
     Some blob0 \<and>
   getAudioBlob ''s2'' (snd (handleDeleteCustomer envOk True ''c1'' (appTwoSessions, worldTwoBlobs))) =
     Some blob0 \<and>
   emitted worldTwoBlobs
     (snd (handleDeleteCustomer_part_002 envOk True ''c1'' (appTwoSessions, worldTwoBlobs))) =
     [DbDeleteCustomer ''c1'', DbDeleteSessionsByCustomer ''c1'']"
  by (simp add: handleDeleteCustomer_def handleDeleteCustomer_part_002_def Let_def emitted_def
      emit_def saveSessions_def getSessions_def getAudioBlob_def getAudioBlobs_def
      appTwoSessions_def worldTwoBlobs_def world0_def sessionOf_def envOk_def)

end
